theory Spec2Isabelle
  imports Main "HOL-Library.Sublist"
begin

section \<open>The selector extension engine of extend.cpp\<close>

text \<open>
  This theory embeds the selector extension engine (file \<^verbatim>\<open>src/extend.cpp\<close>) and
  proves properties of \<^verbatim>\<open>trim\<close>, \<^verbatim>\<open>chunks\<close>, \<^verbatim>\<open>mergeInitialOps\<close>,
  \<^verbatim>\<open>mergeFinalOps\<close>, \<^verbatim>\<open>weave\<close>, the extend driver and the final check of the
  tree walker.

  Conventions of the embedding.
  \<^item> A \<^verbatim>\<open>Node\<close> collection (a shared pointer to a deque of nodes) is a list; where the
    code compares collection pointers (\<^verbatim>\<open>trim\<close>), a collection is a pair of its
    address and its children.
  \<^item> Operations of the selector classes that extend.cpp calls but does not define
    (\<^verbatim>\<open>specificity\<close>, \<^verbatim>\<open>is_superselector_of\<close>, \<^verbatim>\<open>unify_with\<close>,
    \<^verbatim>\<open>sources\<close>, ...) are parameters of the functions that call them.
  \<^item> Undefined behaviour of the C++ (front or back of an empty deque, a null pointer
    dereferenced) and fatal errors (\<^verbatim>\<open>error(...)\<close> throws) are values of type
    \<open>error\<close>, returned on the left of a sum.
  \<^item> The formatting hints (\<^verbatim>\<open>got_line_feed\<close>, \<^verbatim>\<open>has_line_feed\<close>) and the debug
    printing are left out: no result depends on them.
\<close>

subsection \<open>Errors\<close>

datatype error =
    Fatal string
  | Undefined_Behaviour

subsection \<open>Combinators\<close>

datatype combinator = ANCESTOR_OF | PARENT_OF | PRECEDES | ADJACENT_TO | REFERENCE

subsection \<open>Selectors\<close>

text \<open>
  The selector classes are declared outside extend.cpp; the datatypes below hold what
  extend.cpp reads and writes of them. A simple selector is one of the variants of the
  data model; a wrapped selector (\<^verbatim>\<open>:not(...)\<close>) holds a selector list
  (\<open>Wrapped_Selector\<close>) or an argument that is not a selector list (\<open>Wrapped_Other\<close>).
  A compound selector has its simple selectors, the flags \<^verbatim>\<open>extended\<close> and
  \<^verbatim>\<open>is_optional\<close>, its media block (a null pointer is \<open>None\<close>) and its sources.
  A complex selector is a chain of nodes: a combinator, a head (may be null) and a tail
  (may be null).
\<close>

datatype media_block = Media_Block (media_queries: "string option")

datatype simple_selector =
    Type_Selector string
  | Class_Selector string
  | Id_Selector string
  | Attribute_Selector string
  | Pseudo_Selector string
  | Pseudo_Element string
  | Placeholder_Selector string
  | Wrapped_Selector string "complex_selector list"
  | Wrapped_Other string string
and compound_selector =
    Compound_Selector
      (elements: "simple_selector list")
      (extended: bool)
      (is_optional: bool)
      (media_block: "media_block option")
      (compound_sources: "complex_selector list")
and complex_selector =
    Complex_Selector
      (combinator: combinator)
      (head: "compound_selector option")
      (tail: "complex_selector option")

text \<open>
  A \<^verbatim>\<open>Node\<close> is nil, a combinator, a selector (wrapping a \<^verbatim>\<open>Complex_Selector*\<close>, here
  a value of type \<open>'sel\<close>) or a collection of nodes.
\<close>

datatype 'sel node =
    Nil_Node
  | Combinator_Node combinator
  | Selector_Node 'sel
  | Collection_Node "'sel node list"

fun isCombinator :: "'sel node \<Rightarrow> bool" where
  "isCombinator (Combinator_Node c) = True"
| "isCombinator n = False"

fun isSelector :: "'sel node \<Rightarrow> bool" where
  "isSelector (Selector_Node s) = True"
| "isSelector n = False"

fun isCollection :: "'sel node \<Rightarrow> bool" where
  "isCollection (Collection_Node ns) = True"
| "isCollection n = False"

fun isNil :: "'sel node \<Rightarrow> bool" where
  "isNil Nil_Node = True"
| "isNil n = False"

subsection \<open>trim\<close>

text \<open>
  A group handed to \<^verbatim>\<open>trim\<close> is a collection node: the address of its deque (the
  code compares these addresses, line 599) and its children.
\<close>

type_synonym 'n group = "nat \<times> 'n list"

text \<open>
  Lines 572-581: the threshold. It starts at the specificity of \<open>pSeq1\<close> when
  \<open>isReplace\<close> holds and at 0 otherwise, and is raised to the specificity of every source
  of \<open>pSeq1\<close> in both cases.
\<close>

definition maxSpecificity ::
  "('s \<Rightarrow> nat) \<Rightarrow> ('s \<Rightarrow> 's list) \<Rightarrow> bool \<Rightarrow> 's \<Rightarrow> nat" where
  "maxSpecificity specificity sources isReplace pSeq1 =
     fold (\<lambda>pCurrentSelector m. max m (specificity pCurrentSelector)) (sources pSeq1)
       (if isReplace then specificity pSeq1 else 0)"

text \<open>Lines 606-621: the loop over the selectors of one group of \<open>result\<close>, with its break.\<close>

fun isMoreSpecificInner ::
  "('n \<Rightarrow> 's) \<Rightarrow> ('s \<Rightarrow> nat) \<Rightarrow> ('s \<Rightarrow> 's \<Rightarrow> bool) \<Rightarrow> nat \<Rightarrow> 's \<Rightarrow> 'n list \<Rightarrow> bool" where
  "isMoreSpecificInner nodeToComplexSelector specificity is_superselector_of maxSpec pSeq1 [] = False"
| "isMoreSpecificInner nodeToComplexSelector specificity is_superselector_of maxSpec pSeq1 (seq2 # seqs2) =
     (let pSeq2 = nodeToComplexSelector seq2 in
      if specificity pSeq2 \<ge> maxSpec \<and> is_superselector_of pSeq2 pSeq1 then True
      else isMoreSpecificInner nodeToComplexSelector specificity is_superselector_of maxSpec pSeq1 seqs2)"

text \<open>
  Lines 589-630: the loop over the groups of \<open>result\<close>. A group whose collection is the
  collection of \<open>seqs1\<close> (the same address) is skipped.
\<close>

fun isMoreSpecificOuter ::
  "('n \<Rightarrow> 's) \<Rightarrow> ('s \<Rightarrow> nat) \<Rightarrow> ('s \<Rightarrow> 's \<Rightarrow> bool) \<Rightarrow> nat \<Rightarrow> 's \<Rightarrow> nat \<Rightarrow> 'n group list \<Rightarrow> bool" where
  "isMoreSpecificOuter nodeToComplexSelector specificity is_superselector_of maxSpec pSeq1 seqs1_collection [] = False"
| "isMoreSpecificOuter nodeToComplexSelector specificity is_superselector_of maxSpec pSeq1 seqs1_collection (seqs2 # rest) =
     (if seqs1_collection = fst seqs2
      then isMoreSpecificOuter nodeToComplexSelector specificity is_superselector_of maxSpec pSeq1 seqs1_collection rest
      else if isMoreSpecificInner nodeToComplexSelector specificity is_superselector_of maxSpec pSeq1 (snd seqs2)
      then True
      else isMoreSpecificOuter nodeToComplexSelector specificity is_superselector_of maxSpec pSeq1 seqs1_collection rest)"

text \<open>Lines 559-637: the loop over the selectors of \<open>seqs1\<close>, which fills \<open>tempResult\<close>.\<close>

fun trim_seqs1 ::
  "('n \<Rightarrow> 's) \<Rightarrow> ('s \<Rightarrow> nat) \<Rightarrow> ('s \<Rightarrow> 's list) \<Rightarrow> ('s \<Rightarrow> 's \<Rightarrow> bool) \<Rightarrow> bool \<Rightarrow>
   nat \<Rightarrow> 'n group list \<Rightarrow> 'n list \<Rightarrow> 'n list" where
  "trim_seqs1 nodeToComplexSelector specificity sources is_superselector_of isReplace seqs1_collection result [] = []"
| "trim_seqs1 nodeToComplexSelector specificity sources is_superselector_of isReplace seqs1_collection result (seq1 # rest) =
     (let pSeq1 = nodeToComplexSelector seq1;
          maxSpec = maxSpecificity specificity sources isReplace pSeq1;
          isMoreSpecific = isMoreSpecificOuter nodeToComplexSelector specificity is_superselector_of
                             maxSpec pSeq1 seqs1_collection result;
          tempResult = trim_seqs1 nodeToComplexSelector specificity sources is_superselector_of isReplace
                             seqs1_collection result rest
      in if \<not> isMoreSpecific then seq1 # tempResult else tempResult)"

text \<open>
  Lines 551-646: the loop over the groups of \<open>seqses\<close>. \<open>tempResult\<close> is a collection
  created in the iteration; its address is \<open>alloc + toTrimIndex\<close>, where \<open>alloc\<close> is the
  first address the allocator has not handed out. The slot \<open>toTrimIndex\<close> of \<open>result\<close> is
  overwritten before the next group is read.
\<close>

fun trim_loop ::
  "('n \<Rightarrow> 's) \<Rightarrow> ('s \<Rightarrow> nat) \<Rightarrow> ('s \<Rightarrow> 's list) \<Rightarrow> ('s \<Rightarrow> 's \<Rightarrow> bool) \<Rightarrow> nat \<Rightarrow> bool \<Rightarrow>
   nat \<Rightarrow> 'n group list \<Rightarrow> 'n group list \<Rightarrow> 'n group list" where
  "trim_loop nodeToComplexSelector specificity sources is_superselector_of alloc isReplace toTrimIndex [] result = result"
| "trim_loop nodeToComplexSelector specificity sources is_superselector_of alloc isReplace toTrimIndex (seqs1 # rest) result =
     (let tempResult = trim_seqs1 nodeToComplexSelector specificity sources is_superselector_of isReplace
                          (fst seqs1) result (snd seqs1)
      in trim_loop nodeToComplexSelector specificity sources is_superselector_of alloc isReplace (Suc toTrimIndex) rest
           (result[toTrimIndex := (alloc + toTrimIndex, tempResult)]))"

text \<open>
  Lines 529-649. More than 100 groups: the input node is returned. Otherwise \<open>result\<close>
  starts as a collection with the children of \<open>seqses\<close> (the same child collections).
\<close>

definition trim ::
  "('n \<Rightarrow> 's) \<Rightarrow> ('s \<Rightarrow> nat) \<Rightarrow> ('s \<Rightarrow> 's list) \<Rightarrow> ('s \<Rightarrow> 's \<Rightarrow> bool) \<Rightarrow> nat \<Rightarrow> bool \<Rightarrow>
   'n group list \<Rightarrow> 'n group list" where
  "trim nodeToComplexSelector specificity sources is_superselector_of alloc isReplace seqses =
     (if length seqses > 100 then seqses
      else trim_loop nodeToComplexSelector specificity sources is_superselector_of alloc isReplace 0 seqses seqses)"


text \<open>
  The rule of line 615 for one pair: \<open>s2\<close> takes \<open>s1\<close> out when its specificity
  reaches the threshold of \<open>s1\<close> and it is a superselector of \<open>s1\<close>.
\<close>

definition trims ::
  "('s \<Rightarrow> nat) \<Rightarrow> ('s \<Rightarrow> 's list) \<Rightarrow> ('s \<Rightarrow> 's \<Rightarrow> bool) \<Rightarrow> bool \<Rightarrow> 's \<Rightarrow> 's \<Rightarrow> bool" where
  "trims specificity sources is_superselector_of isReplace s2 s1 =
     (specificity s2 \<ge> maxSpecificity specificity sources isReplace s1 \<and> is_superselector_of s2 s1)"

text \<open>
  The groups a selector of group \<open>i\<close> is compared with: the groups before \<open>i\<close> as
  \<open>trim\<close> returns them, and the groups from \<open>i\<close> on as they are in the input.
\<close>

definition working_result :: "'n group list \<Rightarrow> 'n group list \<Rightarrow> nat \<Rightarrow> 'n group list" where
  "working_result trimmed seqses i = take i trimmed @ drop i seqses"

text \<open>
  The rule in the words of the specification, section 4.9: the other groups are the
  groups of the input, and the threshold is the maximum of the specificity of \<open>s1\<close> and
  of the specificities of its sources when \<open>isReplace\<close> is false, and the specificity of
  \<open>s1\<close> when it is true.
\<close>

definition dropped_as_specified ::
  "('s \<Rightarrow> nat) \<Rightarrow> ('s \<Rightarrow> 's list) \<Rightarrow> ('s \<Rightarrow> 's \<Rightarrow> bool) \<Rightarrow> bool \<Rightarrow> 's group list \<Rightarrow> nat \<Rightarrow> 's \<Rightarrow> bool" where
  "dropped_as_specified specificity sources is_superselector_of isReplace seqses i s1 =
     list_ex (\<lambda>j. j \<noteq> i \<and>
         list_ex (\<lambda>s2.
            specificity s2 \<ge>
              (if isReplace then specificity s1
               else Max (insert (specificity s1) (specificity ` set (sources s1)))) \<and>
            is_superselector_of s2 s1) (snd (seqses ! j)))
       [0..<length seqses]"

subsection \<open>Example selectors\<close>

text \<open>
  The selectors of the examples: \<^verbatim>\<open>.a\<close>, \<^verbatim>\<open>.a.b\<close>, \<^verbatim>\<open>.x.y\<close>, and \<^verbatim>\<open>.a\<close> with the
  source \<^verbatim>\<open>.x.y\<close>.
\<close>

definition class_compound :: "string list \<Rightarrow> complex_selector list \<Rightarrow> complex_selector" where
  "class_compound names srcs =
     Complex_Selector ANCESTOR_OF (Some (Compound_Selector (map Class_Selector names) False False None srcs)) None"

definition sel_a :: complex_selector where
  "sel_a = class_compound [''a''] []"

definition sel_a_b :: complex_selector where
  "sel_a_b = class_compound [''a'', ''b''] []"

definition sel_x_y :: complex_selector where
  "sel_x_y = class_compound [''x'', ''y''] []"

definition sel_a_from_x_y :: complex_selector where
  "sel_a_from_x_y = class_compound [''a''] [sel_x_y]"

text \<open>
  Modelled from the spec: \<^verbatim>\<open>specificity\<close>, \<^verbatim>\<open>is_superselector_of\<close> and \<^verbatim>\<open>sources\<close> of
  a complex selector are not defined in extend.cpp. The examples use the weights of
  section 4.3 of the specification (an id 10000; a class, an attribute or a pseudo-class
  100; a type or a pseudo-element 1; the specification gives no weight for a placeholder
  and a wrapped selector, which count 0 here), summed over the chain; for the
  superselector relation between complex selectors of one compound, section 4.2 (the
  simple selectors of the first are among those of the second); and the sources of the
  head.
\<close>

fun simple_specificity :: "simple_selector \<Rightarrow> nat" where
  "simple_specificity (Id_Selector n) = 10000"
| "simple_specificity (Class_Selector n) = 100"
| "simple_specificity (Attribute_Selector n) = 100"
| "simple_specificity (Pseudo_Selector n) = 100"
| "simple_specificity (Type_Selector n) = 1"
| "simple_specificity (Pseudo_Element n) = 1"
| "simple_specificity s = 0"

fun example_specificity :: "complex_selector \<Rightarrow> nat" where
  "example_specificity (Complex_Selector c h t) =
     (case h of None \<Rightarrow> 0 | Some cmp \<Rightarrow> sum_list (map simple_specificity (elements cmp))) +
     (case t of None \<Rightarrow> 0 | Some rest \<Rightarrow> example_specificity rest)"

definition example_is_superselector_of :: "complex_selector \<Rightarrow> complex_selector \<Rightarrow> bool" where
  "example_is_superselector_of s2 s1 =
     (case (head s2, tail s2, head s1, tail s1) of
        (Some h2, None, Some h1, None) \<Rightarrow> list_all (\<lambda>x. x \<in> set (elements h1)) (elements h2)
      | _ \<Rightarrow> False)"

definition example_sources :: "complex_selector \<Rightarrow> complex_selector list" where
  "example_sources s = (case head s of None \<Rightarrow> [] | Some h \<Rightarrow> compound_sources h)"

text \<open>Inputs of \<open>trim\<close> for the examples: groups with their addresses.\<close>

definition groups_ab_a :: "complex_selector group list" where
  "groups_ab_a = [(0, [sel_a_b]), (1, [sel_a])]"

definition groups_asrc_a :: "complex_selector group list" where
  "groups_asrc_a = [(0, [sel_a_from_x_y]), (1, [sel_a])]"

definition groups_a_a :: "complex_selector group list" where
  "groups_a_a = [(0, [sel_a]), (1, [sel_a])]"

definition groups_ab_ab_a :: "complex_selector group list" where
  "groups_ab_ab_a = [(0, [sel_a_b]), (1, [sel_a_b]), (2, [sel_a])]"

definition groups_ab_a_ab :: "complex_selector group list" where
  "groups_ab_a_ab = [(0, [sel_a_b]), (1, [sel_a, sel_a_b])]"

definition groups_101 :: "complex_selector group list" where
  "groups_101 = map (\<lambda>i. (i, [sel_a])) [0..<101]"


subsection \<open>chunks\<close>

text \<open>
  Lines 653-668, \<^verbatim>\<open>parentSuperselector\<close> on nodes: both nodes are converted to complex
  selectors, the fake parent (the type selector \<^verbatim>\<open>temp\<close>, joined by a descendant
  combinator) is made the innermost of both, and the results are compared.
  \<^verbatim>\<open>nodeToComplexSelector\<close>, \<^verbatim>\<open>set_innermost\<close> and \<^verbatim>\<open>is_superselector_of\<close> are
  parameters.
\<close>

definition fakeParentContainer :: complex_selector where
  "fakeParentContainer =
     Complex_Selector ANCESTOR_OF (Some (Compound_Selector [Type_Selector ''temp''] False False None [])) None"

definition parentSuperselector ::
  "(complex_selector node \<Rightarrow> complex_selector) \<Rightarrow>
   (complex_selector \<Rightarrow> complex_selector \<Rightarrow> combinator \<Rightarrow> complex_selector) \<Rightarrow>
   (complex_selector \<Rightarrow> complex_selector \<Rightarrow> bool) \<Rightarrow>
   complex_selector node \<Rightarrow> complex_selector node \<Rightarrow> bool" where
  "parentSuperselector nodeToComplexSelector set_innermost is_superselector_of one two =
     (let pOneWithFakeParent = set_innermost (nodeToComplexSelector one) fakeParentContainer ANCESTOR_OF;
          pTwoWithFakeParent = set_innermost (nodeToComplexSelector two) fakeParentContainer ANCESTOR_OF
      in is_superselector_of pOneWithFakeParent pTwoWithFakeParent)"

text \<open>
  Lines 671-691, the two chunkers. A \<^verbatim>\<open>ParentSuperselectorChunker\<close> is built at line
  1279 inside the loop that runs while \<^verbatim>\<open>seqLcs\<close> is not empty; \<open>mLcs_front\<close> is the
  front of that sequence.
\<close>

definition ParentSuperselectorChunker ::
  "('sel node \<Rightarrow> 'sel node \<Rightarrow> bool) \<Rightarrow> 'sel node \<Rightarrow> 'sel node list \<Rightarrow> bool" where
  "ParentSuperselectorChunker parent_superselector mLcs_front seq =
     (case seq of [] \<Rightarrow> False | seq_front # rest \<Rightarrow> parent_superselector seq_front mLcs_front)"

definition SubweaveEmptyChunker :: "'sel node list \<Rightarrow> bool" where
  "SubweaveEmptyChunker seq = (seq = [])"

text \<open>
  Lines 725-773, \<^verbatim>\<open>chunks\<close>. The first loop (line 728) tests that \<open>seq1\<close> is not
  empty before it calls the chunker. The second loop (line 734) does not: when the
  chunker is false on the empty \<open>seq2\<close>, the body takes the front of an empty deque,
  which is undefined behaviour. Both sequences are passed by reference; the function
  returns the node and what is left of the two sequences.
\<close>

fun chunk1_loop :: "('sel node list \<Rightarrow> bool) \<Rightarrow> 'sel node list \<Rightarrow> 'sel node list \<Rightarrow> 'sel node list \<times> 'sel node list" where
  "chunk1_loop chunker [] chunk1 = (chunk1, [])"
| "chunk1_loop chunker (x # xs) chunk1 =
     (if \<not> chunker (x # xs) then chunk1_loop chunker xs (chunk1 @ [x]) else (chunk1, x # xs))"

fun chunk2_loop :: "('sel node list \<Rightarrow> bool) \<Rightarrow> 'sel node list \<Rightarrow> 'sel node list \<Rightarrow> error + 'sel node list \<times> 'sel node list" where
  "chunk2_loop chunker [] chunk2 = (if \<not> chunker [] then Inl Undefined_Behaviour else Inr (chunk2, []))"
| "chunk2_loop chunker (x # xs) chunk2 =
     (if \<not> chunker (x # xs) then chunk2_loop chunker xs (chunk2 @ [x]) else Inr (chunk2, x # xs))"

definition chunks ::
  "('sel node list \<Rightarrow> bool) \<Rightarrow> 'sel node list \<Rightarrow> 'sel node list \<Rightarrow>
   error + 'sel node \<times> 'sel node list \<times> 'sel node list" where
  "chunks chunker seq1 seq2 =
     (case chunk1_loop chunker seq1 [] of (chunk1, seq1') \<Rightarrow>
      (case chunk2_loop chunker seq2 [] of
         Inl e \<Rightarrow> Inl e
       | Inr (chunk2, seq2') \<Rightarrow>
           Inr (if chunk1 = [] \<and> chunk2 = [] then Collection_Node []
                else if chunk1 = [] then Collection_Node [Collection_Node chunk2]
                else if chunk2 = [] then Collection_Node [Collection_Node chunk1]
                else Collection_Node [Collection_Node (chunk1 @ chunk2), Collection_Node (chunk2 @ chunk1)],
                seq1', seq2')))"

text \<open>
  For the examples: a group of one compound (a collection with one selector node), and
  the parent superselector relation between such groups, which is the superselector
  relation of the two compounds (the fake parent is the same on both sides).
\<close>

definition example_parent_superselector :: "complex_selector node \<Rightarrow> complex_selector node \<Rightarrow> bool" where
  "example_parent_superselector one two =
     (case (one, two) of
        (Collection_Node [Selector_Node s2], Collection_Node [Selector_Node s1]) \<Rightarrow>
           example_is_superselector_of s2 s1
      | _ \<Rightarrow> False)"

definition group_of :: "complex_selector \<Rightarrow> complex_selector node" where
  "group_of s = Collection_Node [Selector_Node s]"

subsection \<open>The tree walker and its final check\<close>

text \<open>
  An entry of the subset map is an \<^verbatim>\<open>ExtensionPair\<close>: two pointers, the extender (a
  complex selector) and the extendee (a compound selector), either of which may be null.
\<close>

type_synonym extension_pair = "complex_selector option \<times> compound_selector option"

text \<open>Lines 2103-2106: the text of the fatal error.\<close>

definition double_quote :: string where
  "double_quote = [CHR 0x22]"

definition newline :: string where
  "newline = [CHR 0x0A]"

definition failed_to_extend_message :: "string \<Rightarrow> string \<Rightarrow> string" where
  "failed_to_extend_message str_sel str_ext =
     double_quote @ str_sel @ double_quote @ '' failed to @extend '' @ double_quote @ str_ext @ double_quote @
       ''.'' @ newline @
     ''The selector '' @ double_quote @ str_ext @ double_quote @ '' was not found.'' @ newline @
     ''Use '' @ double_quote @ ''@extend '' @ str_ext @ '' !optional'' @ double_quote @
       '' if the extend should be able to fail.''"

text \<open>
  Lines 2095-2107: the loop over \<^verbatim>\<open>subset_map.values()\<close>. \<^verbatim>\<open>error\<close> throws, so the
  loop ends at the first entry that is neither extended nor optional. A null extendee,
  or a null extender (or a null \<^verbatim>\<open>first()\<close> of it) at such an entry, is dereferenced.
  \<^verbatim>\<open>first\<close> and the two \<^verbatim>\<open>to_string\<close> are parameters.
\<close>

fun check_everything_extended ::
  "(complex_selector \<Rightarrow> complex_selector option) \<Rightarrow> (complex_selector \<Rightarrow> string) \<Rightarrow>
   (compound_selector \<Rightarrow> string) \<Rightarrow> extension_pair list \<Rightarrow> error + unit" where
  "check_everything_extended first complex_to_string compound_to_string [] = Inr ()"
| "check_everything_extended first complex_to_string compound_to_string (it # rest) =
     (let sel = (case fst it of None \<Rightarrow> None | Some extender \<Rightarrow> first extender);
          ext = snd it
      in case ext of
           None \<Rightarrow> Inl Undefined_Behaviour
         | Some e \<Rightarrow>
             if extended e \<or> is_optional e
             then check_everything_extended first complex_to_string compound_to_string rest
             else (case sel of
                     None \<Rightarrow> Inl Undefined_Behaviour
                   | Some s \<Rightarrow> Inl (Fatal (failed_to_extend_message (complex_to_string s) (compound_to_string e)))))"

text \<open>
  Lines 2086-2134: the visitor. A statement is a ruleset (with what
  \<^verbatim>\<open>extendObjectWithSelectorAndBlock\<close> reads of it, of type \<open>'rs\<close>, and its block), a
  supports block, a media block, a directive (its block may be null) or any other
  statement, which the visitor leaves alone. The walk is modelled as far as the final
  check depends on it: it threads the subset map (of type \<open>'sm\<close>, whose entries
  \<open>subset_map_values\<close> lists), which extending a ruleset may change (the flag
  \<^verbatim>\<open>extended\<close> of the extendees, line 1582) and which may raise an error;
  \<open>extendObject\<close> is that effect of \<^verbatim>\<open>extendObjectWithSelectorAndBlock\<close>. The final
  check runs in the root block only, after its statements.
\<close>

datatype 'rs statement =
    Ruleset_Statement 'rs "'rs block"
  | Supports_Statement "'rs block"
  | Media_Statement "'rs block"
  | Directive_Statement "'rs block option"
  | Other_Statement
and 'rs block =
    Block (block_statements: "'rs statement list") (is_root: bool)

fun Extend_Block ::
  "(complex_selector \<Rightarrow> complex_selector option) \<Rightarrow> (complex_selector \<Rightarrow> string) \<Rightarrow>
   (compound_selector \<Rightarrow> string) \<Rightarrow> ('rs \<Rightarrow> 'rs block \<Rightarrow> 'sm \<Rightarrow> error + 'sm) \<Rightarrow> ('sm \<Rightarrow> extension_pair list) \<Rightarrow>
   'rs block \<Rightarrow> 'sm \<Rightarrow> error + 'sm"
and Extend_statements ::
  "(complex_selector \<Rightarrow> complex_selector option) \<Rightarrow> (complex_selector \<Rightarrow> string) \<Rightarrow>
   (compound_selector \<Rightarrow> string) \<Rightarrow> ('rs \<Rightarrow> 'rs block \<Rightarrow> 'sm \<Rightarrow> error + 'sm) \<Rightarrow> ('sm \<Rightarrow> extension_pair list) \<Rightarrow>
   'rs statement list \<Rightarrow> 'sm \<Rightarrow> error + 'sm"
and Extend_perform ::
  "(complex_selector \<Rightarrow> complex_selector option) \<Rightarrow> (complex_selector \<Rightarrow> string) \<Rightarrow>
   (compound_selector \<Rightarrow> string) \<Rightarrow> ('rs \<Rightarrow> 'rs block \<Rightarrow> 'sm \<Rightarrow> error + 'sm) \<Rightarrow> ('sm \<Rightarrow> extension_pair list) \<Rightarrow>
   'rs statement \<Rightarrow> 'sm \<Rightarrow> error + 'sm" where
  "Extend_Block first complex_to_string compound_to_string extendObject subset_map_values (Block stms root) subset_map =
     (case Extend_statements first complex_to_string compound_to_string extendObject subset_map_values stms subset_map of
        Inl e \<Rightarrow> Inl e
      | Inr subset_map' \<Rightarrow>
          if root
          then (case check_everything_extended first complex_to_string compound_to_string
                       (subset_map_values subset_map') of
                  Inl e \<Rightarrow> Inl e
                | Inr u \<Rightarrow> Inr subset_map')
          else Inr subset_map')"
| "Extend_statements first complex_to_string compound_to_string extendObject subset_map_values [] subset_map =
     Inr subset_map"
| "Extend_statements first complex_to_string compound_to_string extendObject subset_map_values (stm # stms) subset_map =
     (case Extend_perform first complex_to_string compound_to_string extendObject subset_map_values stm subset_map of
        Inl e \<Rightarrow> Inl e
      | Inr subset_map' \<Rightarrow>
          Extend_statements first complex_to_string compound_to_string extendObject subset_map_values stms subset_map')"
| "Extend_perform first complex_to_string compound_to_string extendObject subset_map_values
     (Ruleset_Statement pRuleset b) subset_map =
     (case extendObject pRuleset b subset_map of
        Inl e \<Rightarrow> Inl e
      | Inr subset_map' \<Rightarrow>
          Extend_Block first complex_to_string compound_to_string extendObject subset_map_values b subset_map')"
| "Extend_perform first complex_to_string compound_to_string extendObject subset_map_values
     (Supports_Statement b) subset_map =
     Extend_Block first complex_to_string compound_to_string extendObject subset_map_values b subset_map"
| "Extend_perform first complex_to_string compound_to_string extendObject subset_map_values
     (Media_Statement b) subset_map =
     Extend_Block first complex_to_string compound_to_string extendObject subset_map_values b subset_map"
| "Extend_perform first complex_to_string compound_to_string extendObject subset_map_values
     (Directive_Statement None) subset_map = Inr subset_map"
| "Extend_perform first complex_to_string compound_to_string extendObject subset_map_values
     (Directive_Statement (Some b)) subset_map =
     Extend_Block first complex_to_string compound_to_string extendObject subset_map_values b subset_map"
| "Extend_perform first complex_to_string compound_to_string extendObject subset_map_values
     Other_Statement subset_map = Inr subset_map"

text \<open>An entry that the final check does not pass over (line 2098).\<close>

definition unsatisfied_extend :: "extension_pair \<Rightarrow> bool" where
  "unsatisfied_extend it =
     (case snd it of None \<Rightarrow> True | Some e \<Rightarrow> \<not> extended e \<and> \<not> is_optional e)"

text \<open>
  For the examples: the text of a compound of classes, a ruleset given by the extendees
  it consumes (extending it marks these entries of the subset map), and a tree with one
  ruleset that consumes \<^verbatim>\<open>.a\<close>.
\<close>

fun example_simple_to_string :: "simple_selector \<Rightarrow> string" where
  "example_simple_to_string (Type_Selector n) = n"
| "example_simple_to_string (Class_Selector n) = ''.'' @ n"
| "example_simple_to_string (Id_Selector n) = ''#'' @ n"
| "example_simple_to_string (Attribute_Selector n) = n"
| "example_simple_to_string (Pseudo_Selector n) = n"
| "example_simple_to_string (Pseudo_Element n) = n"
| "example_simple_to_string (Placeholder_Selector n) = ''%'' @ n"
| "example_simple_to_string (Wrapped_Selector n sl) = n"
| "example_simple_to_string (Wrapped_Other n a) = n"

definition example_compound_to_string :: "compound_selector \<Rightarrow> string" where
  "example_compound_to_string c = concat (map example_simple_to_string (elements c))"

definition example_complex_to_string :: "complex_selector \<Rightarrow> string" where
  "example_complex_to_string s = (case head s of None \<Rightarrow> [] | Some h \<Rightarrow> example_compound_to_string h)"

definition example_extendObject ::
  "simple_selector list list \<Rightarrow> simple_selector list list block \<Rightarrow> extension_pair list \<Rightarrow>
   error + extension_pair list" where
  "example_extendObject extendees b subset_map =
     Inr (map (\<lambda>it. (fst it,
                 case snd it of
                   None \<Rightarrow> None
                 | Some e \<Rightarrow>
                     Some (if elements e \<in> set extendees
                           then Compound_Selector (elements e) True (is_optional e) (media_block e) (compound_sources e)
                           else e)))
            subset_map)"

definition extendee_a :: compound_selector where
  "extendee_a = Compound_Selector [Class_Selector ''a''] False False None []"

definition extendee_c :: compound_selector where
  "extendee_c = Compound_Selector [Class_Selector ''c''] False False None []"

definition extendee_c_optional :: compound_selector where
  "extendee_c_optional = Compound_Selector [Class_Selector ''c''] False True None []"

definition example_tree :: "simple_selector list list block" where
  "example_tree =
     Block [Ruleset_Statement [[Class_Selector ''a'']] (Block [Other_Statement] False),
            Media_Statement (Block [] False)] True"

subsection \<open>lcs\<close>

text \<open>
  Lines 375-460: \<^verbatim>\<open>lcs_table\<close>, \<^verbatim>\<open>lcs_backtrace\<close> and \<^verbatim>\<open>lcs\<close>. A comparator returns
  the element it puts out when it holds. \<^verbatim>\<open>lcs\<close> pushes a null pointer to the front of
  both deques, so that the index \<open>i \<ge> 1\<close> of a deque is the element \<open>i - 1\<close> of the
  list here; the index 0 is never read. The table is a vector of vectors, all 0 at first;
  the loops fill the cells \<open>(i, j)\<close> with \<open>i, j \<ge> 1\<close> row by row.
\<close>

definition lcs_cell ::
  "('a \<Rightarrow> 'a \<Rightarrow> 'a option) \<Rightarrow> 'a list \<Rightarrow> 'a list \<Rightarrow> nat list list \<Rightarrow> nat \<Rightarrow> nat \<Rightarrow> nat" where
  "lcs_cell comparator x y c i j =
     (case comparator (x ! (i - 1)) (y ! (j - 1)) of
        Some pCompareOut \<Rightarrow> c ! (i - 1) ! (j - 1) + 1
      | None \<Rightarrow> max (c ! i ! (j - 1)) (c ! (i - 1) ! j))"

definition lcs_table ::
  "('a \<Rightarrow> 'a \<Rightarrow> 'a option) \<Rightarrow> 'a list \<Rightarrow> 'a list \<Rightarrow> nat list list" where
  "lcs_table comparator x y =
     fold (\<lambda>i c. fold (\<lambda>j c. c[i := (c ! i)[j := lcs_cell comparator x y c i j]]) [1..<Suc (length y)] c)
       [1..<Suc (length x)]
       (replicate (Suc (length x)) (replicate (Suc (length y)) 0))"

fun lcs_backtrace ::
  "nat list list \<Rightarrow> ('a \<Rightarrow> 'a \<Rightarrow> 'a option) \<Rightarrow> 'a list \<Rightarrow> 'a list \<Rightarrow> nat \<Rightarrow> nat \<Rightarrow> 'a list" where
  "lcs_backtrace c comparator x y 0 j = []"
| "lcs_backtrace c comparator x y (Suc i) 0 = []"
| "lcs_backtrace c comparator x y (Suc i) (Suc j) =
     (case comparator (x ! i) (y ! j) of
        Some pCompareOut \<Rightarrow> lcs_backtrace c comparator x y i j @ [pCompareOut]
      | None \<Rightarrow>
          if c ! Suc i ! j > c ! i ! Suc j
          then lcs_backtrace c comparator x y (Suc i) j
          else lcs_backtrace c comparator x y i (Suc j))"

definition lcs :: "('a \<Rightarrow> 'a \<Rightarrow> 'a option) \<Rightarrow> 'a list \<Rightarrow> 'a list \<Rightarrow> 'a list" where
  "lcs comparator x y = lcs_backtrace (lcs_table comparator x y) comparator x y (length x) (length y)"

text \<open>
  Modelled from the spec: \<^verbatim>\<open>mergeInitialOps\<close> and \<^verbatim>\<open>mergeFinalOps\<close> call an overload of
  \<^verbatim>\<open>lcs\<close> on nodes with a \<^verbatim>\<open>DefaultLcsComparator\<close>; neither is defined in extend.cpp.
  Section 4.5 of the specification describes one algorithm (the table and its
  backtrace), which is the one above; the default comparator holds for equal elements and
  puts out the first.
\<close>

definition DefaultLcsComparator :: "'a \<Rightarrow> 'a \<Rightarrow> 'a option" where
  "DefaultLcsComparator one two = (if one = two then Some one else None)"

subsection \<open>mergeInitialOps and mergeFinalOps\<close>

text \<open>
  Lines 797-860: \<^verbatim>\<open>getAndRemoveInitialOps\<close> and \<^verbatim>\<open>mergeInitialOps\<close>. Both sequences
  are passed by reference and lose their leading combinators; the function returns the
  node (nil, or the collection of the merged operators) and the two sequences.
\<close>

fun getAndRemoveInitialOps :: "'sel node list \<Rightarrow> 'sel node list \<Rightarrow> 'sel node list \<times> 'sel node list" where
  "getAndRemoveInitialOps [] ops = ([], ops)"
| "getAndRemoveInitialOps (n # seq) ops =
     (if isCombinator n then getAndRemoveInitialOps seq (ops @ [n]) else (n # seq, ops))"

definition mergeInitialOps ::
  "'sel node list \<Rightarrow> 'sel node list \<Rightarrow> 'sel node \<times> 'sel node list \<times> 'sel node list" where
  "mergeInitialOps seq1_in seq2_in =
     (case getAndRemoveInitialOps seq1_in [] of (seq1, ops1) \<Rightarrow>
      case getAndRemoveInitialOps seq2_in [] of (seq2, ops2) \<Rightarrow>
        let opsLcs = lcs DefaultLcsComparator ops1 ops2 in
        if \<not> (opsLcs = ops1 \<or> opsLcs = ops2) then (Nil_Node, seq1, seq2)
        else (Collection_Node (if length ops1 > length ops2 then ops1 else ops2), seq1, seq2))"

text \<open>
  Lines 808-816: \<^verbatim>\<open>getAndRemoveFinalOps\<close> takes the trailing combinators off the back,
  the last one first.
\<close>

function getAndRemoveFinalOps :: "'sel node list \<Rightarrow> 'sel node list \<Rightarrow> 'sel node list \<times> 'sel node list" where
  "getAndRemoveFinalOps seq ops =
     (if seq \<noteq> [] \<and> isCombinator (last seq)
      then getAndRemoveFinalOps (butlast seq) (ops @ [last seq])
      else (seq, ops))"
  by pat_completeness auto
termination
  by (relation "measure (\<lambda>(seq, ops). length seq)") auto

declare getAndRemoveFinalOps.simps [simp del]

text \<open>
  The accessors of a node: \<^verbatim>\<open>selector()\<close> is a null pointer (\<open>None\<close>) on a node that is
  not a selector; \<^verbatim>\<open>combinator()\<close> is read on the nodes of \<open>ops1\<close> and \<open>ops2\<close> only,
  which are combinators.
\<close>

fun node_selector :: "'sel node \<Rightarrow> 'sel option" where
  "node_selector (Selector_Node s) = Some s"
| "node_selector n = None"

fun node_combinator :: "'sel node \<Rightarrow> combinator" where
  "node_combinator (Combinator_Node c) = c"
| "node_combinator n = ANCESTOR_OF"

text \<open>
  Lines 990-993 (and 1049-1052, 1098-1101): the clone of the first selector with its
  head replaced by the unification of the two heads, \<open>None\<close> when the unification is
  null. \<^verbatim>\<open>unify_with\<close> is called on the head of the first selector with the head of the
  second; a null head is dereferenced.
\<close>

definition merged_wrapper ::
  "(compound_selector \<Rightarrow> compound_selector \<Rightarrow> compound_selector option) \<Rightarrow>
   complex_selector \<Rightarrow> complex_selector \<Rightarrow> error + complex_selector option" where
  "merged_wrapper unify_with s1 s2 =
     (case (head s1, head s2) of
        (Some h1, Some h2) \<Rightarrow>
          Inr (case unify_with h1 h2 of
                 None \<Rightarrow> None
               | Some pMerged \<Rightarrow> Some (Complex_Selector (combinator s1) (Some pMerged) (tail s1)))
      | _ \<Rightarrow> Inl Undefined_Behaviour)"

text \<open>
  Lines 927-1151, \<^verbatim>\<open>mergeFinalOps\<close>. One call either returns (nil, or \<open>res\<close>) or calls
  itself on the changed sequences and result; \<open>mergeFinalOps_step\<close> is the body up to
  that point. \<open>mergeFinalOps_both\<close> is the case of one trailing combinator on either
  side (lines 962-1118), given the two combinators, the two selectors taken off the
  back and what is left of the sequences; \<open>mergeFinalOps_one\<close> is the case of a
  combinator on one side only (lines 1120-1149), which takes \<open>back()\<close> of the
  sequence without testing that it is not empty. \<^verbatim>\<open>is_superselector_of\<close>,
  \<^verbatim>\<open>unify_with\<close> and \<^verbatim>\<open>Node::createSelector\<close> are parameters.
\<close>

datatype 'sel merge_step =
    Return "error + 'sel node \<times> 'sel node list \<times> 'sel node list"
  | Recurse "'sel node list" "'sel node list" "'sel node list"

definition mergeFinalOps_both ::
  "(complex_selector \<Rightarrow> complex_selector \<Rightarrow> bool) \<Rightarrow>
   (compound_selector \<Rightarrow> compound_selector \<Rightarrow> compound_selector option) \<Rightarrow>
   (complex_selector \<Rightarrow> complex_selector node) \<Rightarrow>
   complex_selector node \<Rightarrow> complex_selector node \<Rightarrow> complex_selector node \<Rightarrow> complex_selector node \<Rightarrow>
   complex_selector node list \<Rightarrow> complex_selector node list \<Rightarrow> complex_selector node list \<Rightarrow>
   complex_selector merge_step" where
  "mergeFinalOps_both is_superselector_of unify_with createSelector op1 op2 sel1 sel2 seq1 seq2 res =
     (if node_combinator op1 = PRECEDES \<and> node_combinator op2 = PRECEDES then
        (case (node_selector sel1, node_selector sel2) of
           (Some s1, Some s2) \<Rightarrow>
             if is_superselector_of s1 s2 then Recurse seq1 seq2 (sel2 # op1 # res)
             else if is_superselector_of s2 s1 then Recurse seq1 seq2 (sel1 # op1 # res)
             else (case merged_wrapper unify_with s1 s2 of
                     Inl e \<Rightarrow> Return (Inl e)
                   | Inr pMerged \<Rightarrow>
                       Recurse seq1 seq2
                         (Collection_Node
                            ([Collection_Node [sel1, Combinator_Node PRECEDES, sel2, Combinator_Node PRECEDES],
                              Collection_Node [sel2, Combinator_Node PRECEDES, sel1, Combinator_Node PRECEDES]] @
                             (case pMerged of
                                None \<Rightarrow> []
                              | Some pMergedWrapper \<Rightarrow>
                                  [Collection_Node [createSelector pMergedWrapper, Combinator_Node PRECEDES]]))
                          # res))
         | _ \<Rightarrow> Return (Inl Undefined_Behaviour))
      else if (node_combinator op1 = PRECEDES \<and> node_combinator op2 = ADJACENT_TO) \<or>
              (node_combinator op1 = ADJACENT_TO \<and> node_combinator op2 = PRECEDES) then
        (let tildeSel = (if node_combinator op1 \<noteq> PRECEDES then sel2 else sel1);
             plusSel = (if node_combinator op1 \<noteq> PRECEDES then sel1 else sel2);
             plusOp = (if node_combinator op1 \<noteq> PRECEDES then op1 else op2)
         in case (node_selector tildeSel, node_selector plusSel) of
              (Some pTilde, Some pPlus) \<Rightarrow>
                if is_superselector_of pTilde pPlus then Recurse seq1 seq2 (plusSel # plusOp # res)
                else (case merged_wrapper unify_with pPlus pTilde of
                        Inl e \<Rightarrow> Return (Inl e)
                      | Inr pMerged \<Rightarrow>
                          Recurse seq1 seq2
                            (Collection_Node
                               ([Collection_Node [tildeSel, Combinator_Node PRECEDES, plusSel, Combinator_Node ADJACENT_TO]] @
                                (case pMerged of
                                   None \<Rightarrow> []
                                 | Some pMergedWrapper \<Rightarrow>
                                     [Collection_Node [createSelector pMergedWrapper, Combinator_Node ADJACENT_TO]]))
                             # res))
            | _ \<Rightarrow> Return (Inl Undefined_Behaviour))
      else if node_combinator op1 = PARENT_OF \<and>
              (node_combinator op2 = PRECEDES \<or> node_combinator op2 = ADJACENT_TO) then
        Recurse (seq1 @ [sel1, op1]) seq2 (sel2 # op2 # res)
      else if node_combinator op2 = PARENT_OF \<and>
              (node_combinator op1 = PRECEDES \<or> node_combinator op1 = ADJACENT_TO) then
        Recurse seq1 (seq2 @ [sel2, op2]) (sel1 # op1 # res)
      else if node_combinator op1 = node_combinator op2 then
        (case (node_selector sel1, node_selector sel2) of
           (Some s1, Some s2) \<Rightarrow>
             (case merged_wrapper unify_with s1 s2 of
                Inl e \<Rightarrow> Return (Inl e)
              | Inr None \<Rightarrow> Return (Inr (Nil_Node, seq1, seq2))
              | Inr (Some pMergedWrapper) \<Rightarrow> Recurse seq1 seq2 (createSelector pMergedWrapper # op1 # res))
         | _ \<Rightarrow> Return (Inl Undefined_Behaviour))
      else Return (Inr (Nil_Node, seq1, seq2)))"

definition mergeFinalOps_one ::
  "(complex_selector \<Rightarrow> complex_selector \<Rightarrow> bool) \<Rightarrow>
   complex_selector node \<Rightarrow> complex_selector node list \<Rightarrow> complex_selector node list \<Rightarrow>
   error + complex_selector node \<times> complex_selector node list \<times> complex_selector node list" where
  "mergeFinalOps_one is_superselector_of op1 seq1 seq2 =
     (if node_combinator op1 = PARENT_OF \<and> seq2 \<noteq> []
      then (if seq1 = [] then Inl Undefined_Behaviour
            else case (node_selector (last seq2), node_selector (last seq1)) of
                   (Some s2, Some s1) \<Rightarrow>
                     Inr (last seq1, butlast seq1, if is_superselector_of s2 s1 then butlast seq2 else seq2)
                 | _ \<Rightarrow> Inl Undefined_Behaviour)
      else (if seq1 = [] then Inl Undefined_Behaviour else Inr (last seq1, butlast seq1, seq2)))"

definition mergeFinalOps_step ::
  "(complex_selector \<Rightarrow> complex_selector \<Rightarrow> bool) \<Rightarrow>
   (compound_selector \<Rightarrow> compound_selector \<Rightarrow> compound_selector option) \<Rightarrow>
   (complex_selector \<Rightarrow> complex_selector node) \<Rightarrow>
   complex_selector node list \<Rightarrow> complex_selector node list \<Rightarrow> complex_selector node list \<Rightarrow>
   complex_selector merge_step" where
  "mergeFinalOps_step is_superselector_of unify_with createSelector seq1_in seq2_in res =
     (case getAndRemoveFinalOps seq1_in [] of (seq1, ops1) \<Rightarrow>
      case getAndRemoveFinalOps seq2_in [] of (seq2, ops2) \<Rightarrow>
        if ops1 = [] \<and> ops2 = [] then Return (Inr (Collection_Node res, seq1, seq2))
        else if length ops1 > 1 \<or> length ops2 > 1 then
          (let opsLcs = lcs DefaultLcsComparator ops1 ops2 in
           if \<not> (opsLcs = ops1 \<or> opsLcs = ops2) then Return (Inr (Nil_Node, seq1, seq2))
           else if length ops1 > length ops2 then Return (Inr (Collection_Node (rev ops1 @ res), seq1, seq2))
           else Return (Inr (Collection_Node (rev ops2 @ res), seq1, seq2)))
        else if ops1 \<noteq> [] \<and> ops2 \<noteq> [] then
          (if seq1 = [] \<or> seq2 = [] then Return (Inl Undefined_Behaviour)
           else mergeFinalOps_both is_superselector_of unify_with createSelector
                  (hd ops1) (hd ops2) (last seq1) (last seq2) (butlast seq1) (butlast seq2) res)
        else if ops1 \<noteq> [] then
          (case mergeFinalOps_one is_superselector_of (hd ops1) seq1 seq2 of
             Inl e \<Rightarrow> Return (Inl e)
           | Inr (sel, seq1', seq2') \<Rightarrow> Recurse seq1' seq2' (sel # hd ops1 # res))
        else
          (case mergeFinalOps_one is_superselector_of (hd ops2) seq2 seq1 of
             Inl e \<Rightarrow> Return (Inl e)
           | Inr (sel, seq2', seq1') \<Rightarrow> Recurse seq1' seq2' (sel # hd ops2 # res)))"

text \<open>
  The recursion ends: each call that goes on has taken at least two nodes off the two
  sequences together.
\<close>

lemma getAndRemoveFinalOps_length:
  "getAndRemoveFinalOps seq ops = (seq', ops') \<Longrightarrow> length seq' + length ops' = length seq + length ops"
proof (induction seq ops rule: getAndRemoveFinalOps.induct)
  case (1 seq ops)
  show ?case
  proof (cases "seq \<noteq> [] \<and> isCombinator (last seq)")
    case True
    then have "getAndRemoveFinalOps (butlast seq) (ops @ [last seq]) = (seq', ops')"
      using "1.prems" by (subst (asm) getAndRemoveFinalOps.simps) simp
    from "1.IH"[OF True this] True show ?thesis by simp
  next
    case False
    then show ?thesis using "1.prems" by (subst (asm) getAndRemoveFinalOps.simps) auto
  qed
qed

lemma mergeFinalOps_both_decreases:
  "mergeFinalOps_both is_sup u mk op1 op2 sel1 sel2 seq1 seq2 res = Recurse seq1' seq2' res' \<Longrightarrow>
   length seq1' + length seq2' \<le> length seq1 + length seq2 + 2"
  unfolding mergeFinalOps_both_def Let_def
  by (simp split: if_splits option.splits sum.splits prod.splits) auto

lemma mergeFinalOps_one_decreases:
  assumes "mergeFinalOps_one is_sup op1 seq1 seq2 = Inr (sel, seq1', seq2')"
  shows "length seq1' + length seq2' < length seq1 + length seq2"
proof -
  from assms have "seq1 \<noteq> []"
    unfolding mergeFinalOps_one_def by (simp split: if_splits)
  then obtain ys y where seq1: "seq1 = ys @ [y]" by (cases seq1 rule: rev_cases) auto
  from assms have "seq1' = ys" and "length seq2' \<le> length seq2"
    unfolding mergeFinalOps_one_def seq1
    by (auto split: if_splits option.splits prod.splits)
  then show ?thesis using seq1 by simp
qed

lemma mergeFinalOps_step_decreases:
  assumes "mergeFinalOps_step is_sup u mk seq1 seq2 res = Recurse seq1' seq2' res'"
  shows "length seq1' + length seq2' < length seq1 + length seq2"
proof -
  obtain s1 o1 where g1: "getAndRemoveFinalOps seq1 [] = (s1, o1)" by (cases "getAndRemoveFinalOps seq1 []")
  obtain s2 o2 where g2: "getAndRemoveFinalOps seq2 [] = (s2, o2)" by (cases "getAndRemoveFinalOps seq2 []")
  have l1: "length s1 + length o1 = length seq1" using getAndRemoveFinalOps_length[OF g1] by simp
  have l2: "length s2 + length o2 = length seq2" using getAndRemoveFinalOps_length[OF g2] by simp
  note step = assms[unfolded mergeFinalOps_step_def g1 g2 prod.case Let_def]
  consider (none) "o1 = []" "o2 = []" | (many) "length o1 > 1 \<or> length o2 > 1"
    | (both) "length o1 = 1" "length o2 = 1" | (left) "length o1 = 1" "o2 = []"
    | (right) "o1 = []" "length o2 = 1"
    by (cases o1; cases o2) (auto simp: less_Suc_eq_0_disj)
  then show ?thesis
  proof cases
    case none
    then show ?thesis using step by simp
  next
    case many
    then have "\<not> (o1 = [] \<and> o2 = [])" by auto
    then show ?thesis using step many by (simp split: if_splits)
  next
    case both
    then have ne: "o1 \<noteq> []" "o2 \<noteq> []" by auto
    have b: "s1 \<noteq> [] \<and> s2 \<noteq> [] \<and>
        mergeFinalOps_both is_sup u mk (hd o1) (hd o2) (last s1) (last s2) (butlast s1) (butlast s2) res =
        Recurse seq1' seq2' res'"
      using step ne both by (simp split: if_splits)
    then have "length (butlast s1) + 1 = length s1" "length (butlast s2) + 1 = length s2" by auto
    then show ?thesis using mergeFinalOps_both_decreases[of is_sup u mk "hd o1" "hd o2" "last s1" "last s2" "butlast s1" "butlast s2" res seq1' seq2' res'] b l1 l2 both
      by linarith
  next
    case left
    then have ne: "o1 \<noteq> []" by auto
    have "\<exists>sel. mergeFinalOps_one is_sup (hd o1) s1 s2 = Inr (sel, seq1', seq2')"
      using step ne left by (simp split: if_splits sum.splits prod.splits)
    then obtain sel where one: "mergeFinalOps_one is_sup (hd o1) s1 s2 = Inr (sel, seq1', seq2')" by blast
    show ?thesis using mergeFinalOps_one_decreases[OF one] l1 l2 left by simp
  next
    case right
    then have ne: "o2 \<noteq> []" by auto
    have "\<exists>sel. mergeFinalOps_one is_sup (hd o2) s2 s1 = Inr (sel, seq2', seq1')"
      using step ne right by (simp split: if_splits sum.splits prod.splits)
    then obtain sel where one: "mergeFinalOps_one is_sup (hd o2) s2 s1 = Inr (sel, seq2', seq1')" by blast
    show ?thesis using mergeFinalOps_one_decreases[OF one] l1 l2 right by simp
  qed
qed

function mergeFinalOps ::
  "(complex_selector \<Rightarrow> complex_selector \<Rightarrow> bool) \<Rightarrow>
   (compound_selector \<Rightarrow> compound_selector \<Rightarrow> compound_selector option) \<Rightarrow>
   (complex_selector \<Rightarrow> complex_selector node) \<Rightarrow>
   complex_selector node list \<Rightarrow> complex_selector node list \<Rightarrow> complex_selector node list \<Rightarrow>
   error + complex_selector node \<times> complex_selector node list \<times> complex_selector node list" where
  "mergeFinalOps is_superselector_of unify_with createSelector seq1 seq2 res =
     (case mergeFinalOps_step is_superselector_of unify_with createSelector seq1 seq2 res of
        Return r \<Rightarrow> r
      | Recurse seq1' seq2' res' \<Rightarrow> mergeFinalOps is_superselector_of unify_with createSelector seq1' seq2' res')"
  by pat_completeness auto
termination
proof (relation "measure (\<lambda>(is_sup, u, mk, seq1, seq2, res). length seq1 + length seq2)")
  show "wf (measure (\<lambda>(is_sup, u, mk, seq1, seq2, res). length seq1 + length seq2))" by simp
next
  fix is_superselector_of unify_with createSelector seq1 seq2 res x21 x22 x23
  assume "mergeFinalOps_step is_superselector_of unify_with createSelector seq1 seq2 res = Recurse x21 x22 x23"
  then show "((is_superselector_of, unify_with, createSelector, x21, x22, x23),
              (is_superselector_of, unify_with, createSelector, seq1, seq2, res))
             \<in> measure (\<lambda>(is_sup, u, mk, seq1, seq2, res). length seq1 + length seq2)"
    using mergeFinalOps_step_decreases by simp
qed

declare mergeFinalOps.simps [simp del]

text \<open>
  For the examples: the unification of two compounds, after section 4.1 of the
  specification as far as the examples need it (two distinct type selectors reject; the
  simple selectors are merged as sets, those of the first compound first).
\<close>

definition example_unify_with :: "compound_selector \<Rightarrow> compound_selector \<Rightarrow> compound_selector option" where
  "example_unify_with a b =
     (let types_a = filter (\<lambda>s. case s of Type_Selector n \<Rightarrow> True | _ \<Rightarrow> False) (elements a);
          types_b = filter (\<lambda>s. case s of Type_Selector n \<Rightarrow> True | _ \<Rightarrow> False) (elements b)
      in if types_a \<noteq> [] \<and> types_b \<noteq> [] \<and> types_a \<noteq> types_b then None
         else Some (Compound_Selector (elements a @ filter (\<lambda>s. s \<notin> set (elements a)) (elements b))
                      False False None []))"

subsection \<open>The operations of the selector classes\<close>

text \<open>
  The extend driver, \<^verbatim>\<open>subweave\<close> and \<^verbatim>\<open>weave\<close> call many functions that extend.cpp
  does not define: member functions of the selector classes, the conversions between
  selectors and nodes, \<^verbatim>\<open>paths\<close> and \<^verbatim>\<open>flatten\<close>, the subset map's \<^verbatim>\<open>get_v\<close>,
  \<^verbatim>\<open>group_by_to_a\<close>, the placeholder removal. They are the fields of one record, which the
  functions below take as an argument; the theorems hold for every value of it. \<open>'sm\<close>
  is the type of the subset map. \<open>ast_get_v\<close> is \<^verbatim>\<open>get_v\<close> applied to \<^verbatim>\<open>to_str_vec()\<close> of a
  compound. \<open>ast_seen_key\<close> maps a compound to its class under the order of
  \<^verbatim>\<open>std::set<Compound_Selector>\<close> (two compounds are one element of such a set when
  \<^verbatim>\<open>operator<\<close> orders neither before the other). \<open>ast_flatten\<close> takes the depth, -1
  when the call gives none. \<open>ast_to_string\<close> is \<^verbatim>\<open>to_string\<close> of a compound, and
  \<open>ast_line_and_path\<close> the texts of \<^verbatim>\<open>pstate.line + 1\<close> and of the relative path of its
  position.
\<close>

record ('k, 'sm) selector_ops =
  ast_specificity :: "complex_selector \<Rightarrow> nat"
  ast_sources :: "complex_selector \<Rightarrow> complex_selector list"
  ast_addSources :: "complex_selector list \<Rightarrow> complex_selector \<Rightarrow> complex_selector"
  ast_is_superselector_of :: "complex_selector \<Rightarrow> complex_selector \<Rightarrow> bool"
  ast_unify_with :: "compound_selector \<Rightarrow> compound_selector \<Rightarrow> compound_selector option"
  ast_minus :: "compound_selector \<Rightarrow> compound_selector \<Rightarrow> compound_selector"
  ast_last :: "complex_selector \<Rightarrow> complex_selector"
  ast_first :: "complex_selector \<Rightarrow> complex_selector option"
  ast_clear_innermost :: "complex_selector \<Rightarrow> combinator \<times> complex_selector"
  ast_set_innermost :: "complex_selector \<Rightarrow> complex_selector \<Rightarrow> combinator \<Rightarrow> complex_selector"
  ast_has_placeholder :: "complex_selector \<Rightarrow> bool"
  ast_has_wrapped_selector :: "complex_selector \<Rightarrow> bool"
  ast_selectors_equal :: "complex_selector \<Rightarrow> complex_selector \<Rightarrow> bool \<Rightarrow> bool"
  ast_createSelector :: "complex_selector \<Rightarrow> complex_selector node"
  ast_complexSelectorToNode :: "complex_selector \<Rightarrow> complex_selector node"
  ast_nodeToComplexSelector :: "complex_selector node \<Rightarrow> complex_selector"
  ast_node_equal :: "complex_selector node \<Rightarrow> complex_selector node \<Rightarrow> bool \<Rightarrow> bool"
  ast_paths :: "complex_selector node \<Rightarrow> complex_selector node"
  ast_flatten :: "complex_selector node \<Rightarrow> int \<Rightarrow> complex_selector node"
  ast_seen_key :: "compound_selector \<Rightarrow> 'k"
  ast_get_v :: "'sm \<Rightarrow> compound_selector \<Rightarrow> (complex_selector \<times> compound_selector) list"
  ast_group_by_to_a :: "(complex_selector \<times> compound_selector) list \<Rightarrow>
      (complex_selector \<times> (complex_selector \<times> compound_selector) list) list"
  ast_remove_placeholders :: "complex_selector list \<Rightarrow> complex_selector list"
  ast_to_string :: "compound_selector \<Rightarrow> string"
  ast_line_and_path :: "compound_selector \<Rightarrow> string \<times> string"

text \<open>\<^verbatim>\<open>collection()\<close> of a node: a null pointer (\<open>None\<close>) on a node that is not a collection.\<close>

fun node_collection :: "'sel node \<Rightarrow> 'sel node list option" where
  "node_collection (Collection_Node ns) = Some ns"
| "node_collection n = None"

subsection \<open>subweave\<close>

text \<open>
  Lines 290-308, \<^verbatim>\<open>parentSuperselector\<close> on selectors (the fake parent is set as the
  innermost of both for the comparison and cleared afterwards), and lines 328-366, the
  comparator of the common subsequence of two sequences of groups.
\<close>

definition parentSuperselector_ptr ::
  "('k, 'sm) selector_ops \<Rightarrow> complex_selector \<Rightarrow> complex_selector \<Rightarrow> bool" where
  "parentSuperselector_ptr ops pOne pTwo =
     ast_is_superselector_of ops
       (ast_set_innermost ops pOne fakeParentContainer ANCESTOR_OF)
       (ast_set_innermost ops pTwo fakeParentContainer ANCESTOR_OF)"

definition LcsCollectionComparator ::
  "('k, 'sm) selector_ops \<Rightarrow> complex_selector \<Rightarrow> complex_selector \<Rightarrow> complex_selector option" where
  "LcsCollectionComparator ops pOne pTwo =
     (if ast_selectors_equal ops pOne pTwo True then Some pOne
      else if combinator pOne \<noteq> ANCESTOR_OF \<or> combinator pTwo \<noteq> ANCESTOR_OF then None
      else if parentSuperselector_ptr ops pOne pTwo then Some pTwo
      else if parentSuperselector_ptr ops pTwo pOne then Some pOne
      else None)"

text \<open>
  Lines 776-794, \<^verbatim>\<open>groupSelectors\<close>: \<open>groupSelectors_head\<close> is the inner do-while loop,
  which moves nodes from the tail to the head while the last node moved or the next one
  is a combinator.
\<close>

fun groupSelectors_head ::
  "'sel node list \<Rightarrow> 'sel node list \<Rightarrow> 'sel node list \<times> 'sel node list" where
  "groupSelectors_head head_nodes [] = (head_nodes, [])"
| "groupSelectors_head head_nodes (n # tail_nodes) =
     (if tail_nodes \<noteq> [] \<and> (isCombinator n \<or> isCombinator (hd tail_nodes))
      then groupSelectors_head (head_nodes @ [n]) tail_nodes
      else (head_nodes @ [n], tail_nodes))"

lemma groupSelectors_head_length:
  "groupSelectors_head h xs = (h', t') \<Longrightarrow> xs \<noteq> [] \<Longrightarrow> length t' < length xs"
proof (induction h xs rule: groupSelectors_head.induct)
  case (1 head_nodes)
  then show ?case by simp
next
  case (2 head_nodes n tail_nodes)
  show ?case
  proof (cases "tail_nodes \<noteq> [] \<and> (isCombinator n \<or> isCombinator (hd tail_nodes))")
    case True
    then have "groupSelectors_head (head_nodes @ [n]) tail_nodes = (h', t')" using "2.prems" by simp
    then have "length t' < length tail_nodes" using "2.IH" True by simp
    then show ?thesis by simp
  next
    case False
    then show ?thesis using "2.prems" by auto
  qed
qed

function groupSelectors :: "'sel node list \<Rightarrow> 'sel node list" where
  "groupSelectors [] = []"
| "groupSelectors (n # tail_nodes) =
     (case groupSelectors_head [] (n # tail_nodes) of
        (head_nodes, rest) \<Rightarrow> Collection_Node head_nodes # groupSelectors rest)"
  by pat_completeness auto
termination
proof (relation "measure length")
  show "wf (measure length)" by simp
next
  fix n :: "'sel node" and tail_nodes x xa y
  assume "(xa, y) = groupSelectors_head [] (n # tail_nodes)"
  then have "groupSelectors_head [] (n # tail_nodes) = (xa, y)" by simp
  then show "(y, n # tail_nodes) \<in> measure length"
    using groupSelectors_head_length[of "[]" "n # tail_nodes" xa y] by simp
qed

declare groupSelectors.simps [simp del]

text \<open>Lines 1278-1290: the loop over the common subsequence.\<close>

fun subweave_lcs_loop ::
  "('k, 'sm) selector_ops \<Rightarrow> complex_selector node list \<Rightarrow> complex_selector node list \<Rightarrow>
   complex_selector node list \<Rightarrow> complex_selector node list \<Rightarrow>
   error + complex_selector node list \<times> complex_selector node list \<times> complex_selector node list" where
  "subweave_lcs_loop ops [] groupSeq1 groupSeq2 diff = Inr (diff, groupSeq1, groupSeq2)"
| "subweave_lcs_loop ops (lcs_front # seqLcs) groupSeq1 groupSeq2 diff =
     (case chunks (ParentSuperselectorChunker
                     (parentSuperselector (ast_nodeToComplexSelector ops) (ast_set_innermost ops)
                        (ast_is_superselector_of ops)) lcs_front)
             groupSeq1 groupSeq2 of
        Inl e \<Rightarrow> Inl e
      | Inr (chunksResult, groupSeq1', groupSeq2') \<Rightarrow>
          subweave_lcs_loop ops seqLcs (tl groupSeq1') (tl groupSeq2')
            (diff @ [chunksResult, Collection_Node [lcs_front]]))"

text \<open>
  Lines 1190-1349, \<^verbatim>\<open>subweave\<close>. It returns nil when the initial or the final operators
  cannot be merged, and a collection of sequences otherwise.
\<close>

definition subweave ::
  "('k, 'sm) selector_ops \<Rightarrow> complex_selector node list \<Rightarrow> complex_selector node list \<Rightarrow>
   error + complex_selector node" where
  "subweave ops one two =
     (if one = [] then Inr (Collection_Node [Collection_Node two])
      else if two = [] then Inr (Collection_Node [Collection_Node one])
      else
        case mergeInitialOps one two of (init, seq1, seq2) \<Rightarrow>
        if isNil init then Inr Nil_Node
        else
          case mergeFinalOps (ast_is_superselector_of ops) (ast_unify_with ops) (ast_createSelector ops)
                 seq1 seq2 [] of
            Inl e \<Rightarrow> Inl e
          | Inr (fin, seq1', seq2') \<Rightarrow>
              if isNil fin then Inr Nil_Node
              else
              (case node_collection fin of
                 None \<Rightarrow> Inl Undefined_Behaviour
               | Some fin_children \<Rightarrow>
                   let fin_mapped = map (\<lambda>childNode. if isCollection childNode then childNode
                                                      else Collection_Node [childNode]) fin_children;
                       groupSeq1 = groupSelectors seq1';
                       groupSeq2 = groupSelectors seq2';
                       groupSeq1Converted = map (ast_nodeToComplexSelector ops) groupSeq1;
                       groupSeq2Converted = map (ast_nodeToComplexSelector ops) groupSeq2;
                       out = lcs (LcsCollectionComparator ops) groupSeq2Converted groupSeq1Converted;
                       seqLcs = map (ast_complexSelectorToNode ops) out
                   in case subweave_lcs_loop ops seqLcs groupSeq1 groupSeq2
                             [Collection_Node [init]] of
                        Inl e \<Rightarrow> Inl e
                      | Inr (diff, groupSeq1', groupSeq2') \<Rightarrow>
                          (case chunks SubweaveEmptyChunker groupSeq1' groupSeq2' of
                             Inl e \<Rightarrow> Inl e
                           | Inr (chunksResult, groupSeq1'', groupSeq2'') \<Rightarrow>
                               let diff' = diff @ [chunksResult] @ fin_mapped;
                                   diffFiltered = filter (\<lambda>n. case node_collection n of
                                                               None \<Rightarrow> False
                                                             | Some c \<Rightarrow> c \<noteq> []) diff';
                                   pathsResult = ast_paths ops (Collection_Node diffFiltered)
                               in (case node_collection pathsResult of
                                     None \<Rightarrow> Inl Undefined_Behaviour
                                   | Some path_children \<Rightarrow>
                                       Inr (Collection_Node
                                              (map (\<lambda>child. ast_flatten ops child (-1)) path_children))))))"

subsection \<open>weave\<close>

text \<open>
  Lines 1453-1505, \<^verbatim>\<open>weave\<close>. \<open>weave_append_last\<close> is the loop over the sequences of one
  \<^verbatim>\<open>sub\<close> (lines 1488-1497), \<open>weave_befores\<close> the loop over \<open>befores\<close> (lines 1477-1498),
  \<open>weave_loop\<close> the loop over \<open>afters\<close>. The return from inside the loops, when a
  \<^verbatim>\<open>subweave\<close> is nil (line 1485), is the value \<open>None\<close> of the two loops, which
  \<open>weave\<close> turns into the empty collection.
\<close>

fun weave_append_last ::
  "complex_selector node list \<Rightarrow> complex_selector node list \<Rightarrow> error + complex_selector node list" where
  "weave_append_last last_current [] = Inr []"
| "weave_append_last last_current (seqs # rest) =
     (case node_collection seqs of
        None \<Rightarrow> Inl Undefined_Behaviour
      | Some s \<Rightarrow>
          (case weave_append_last last_current rest of
             Inl e \<Rightarrow> Inl e
           | Inr pushed \<Rightarrow> Inr (Collection_Node (s @ last_current) # pushed)))"

fun weave_befores ::
  "('k, 'sm) selector_ops \<Rightarrow> complex_selector node list \<Rightarrow> complex_selector node list \<Rightarrow>
   complex_selector node list \<Rightarrow> complex_selector node list \<Rightarrow>
   error + complex_selector node list option" where
  "weave_befores ops current last_current [] tempResult = Inr (Some tempResult)"
| "weave_befores ops current last_current (before # befores) tempResult =
     (case node_collection before of
        None \<Rightarrow> Inl Undefined_Behaviour
      | Some b \<Rightarrow>
          (case subweave ops b current of
             Inl e \<Rightarrow> Inl e
           | Inr sub \<Rightarrow>
               if isNil sub then Inr None
               else (case node_collection sub of
                       None \<Rightarrow> Inl Undefined_Behaviour
                     | Some sub_children \<Rightarrow>
                         (case weave_append_last last_current sub_children of
                            Inl e \<Rightarrow> Inl e
                          | Inr pushed \<Rightarrow>
                              weave_befores ops current last_current befores (tempResult @ pushed)))))"

fun weave_loop ::
  "('k, 'sm) selector_ops \<Rightarrow> complex_selector node list \<Rightarrow> complex_selector node list \<Rightarrow>
   error + complex_selector node list option" where
  "weave_loop ops befores [] = Inr (Some befores)"
| "weave_loop ops befores (afters_front # afters) =
     (case node_collection afters_front of
        None \<Rightarrow> Inl Undefined_Behaviour
      | Some current \<Rightarrow>
          if current = [] then weave_loop ops befores afters
          else (case weave_befores ops (butlast current) [last current] befores [] of
                  Inl e \<Rightarrow> Inl e
                | Inr None \<Rightarrow> Inr None
                | Inr (Some tempResult) \<Rightarrow> weave_loop ops tempResult afters))"

definition weave ::
  "('k, 'sm) selector_ops \<Rightarrow> complex_selector node list \<Rightarrow> error + complex_selector node" where
  "weave ops path =
     (case weave_loop ops [Collection_Node []] path of
        Inl e \<Rightarrow> Inl e
      | Inr None \<Rightarrow> Inr (Collection_Node [])
      | Inr (Some befores) \<Rightarrow> Inr (Collection_Node befores))"

subsection \<open>The extend driver\<close>

text \<open>
  \<^verbatim>\<open>extendCompoundSelector\<close> (lines 1539-1708) and \<^verbatim>\<open>extendComplexSelector\<close> (lines
  1788-1905) call each other. The recursion is not structural, so both take a fuel, and
  \<open>None\<close> is the run that has not returned within it. The subset map is a parameter
  \<open>subset_map\<close> read through \<open>ast_get_v\<close>. The only write to shared objects is
  \<^verbatim>\<open>pCompound->extended(true)\<close> (line 1582): a call returns, next to its node, the
  extendees it has marked, in the order of the writes. The set \<open>seen\<close> is a
  \<^verbatim>\<open>std::set<Compound_Selector>\<close> passed by value; its members are compared through
  \<open>ast_seen_key\<close>.
\<close>

type_synonym subset_map_entries = "(complex_selector \<times> compound_selector) list"

text \<open>\<^verbatim>\<open>SASS_MEMORY_NEW(ctx.mem, Compound_Selector, pstate)\<close>: a compound with default fields.\<close>

definition new_Compound_Selector :: "simple_selector list \<Rightarrow> compound_selector" where
  "new_Compound_Selector simples = Compound_Selector simples False False None []"

text \<open>
  Lines 1575-1584: \<open>pSels\<close> collects the simple selectors of all extendees of the group;
  an extendee with at least one simple selector gets its \<open>extended\<close> flag set.
\<close>

definition group_pSels :: "subset_map_entries \<Rightarrow> compound_selector" where
  "group_pSels grp = new_Compound_Selector (concat (map (\<lambda>pair. elements (snd pair)) grp))"

definition group_extended :: "subset_map_entries \<Rightarrow> compound_selector list" where
  "group_extended grp = filter (\<lambda>pCompound. elements pCompound \<noteq> []) (map snd grp)"

text \<open>
  Lines 1566-1666, the first loop: one pair \<open>(pSels, pNewSelector)\<close> for each group whose
  unification is neither null nor empty. The second component of the result lists the
  marked extendees.
\<close>

fun extendCompound_holder ::
  "('k, 'sm) selector_ops \<Rightarrow> compound_selector \<Rightarrow> (complex_selector \<times> subset_map_entries) list \<Rightarrow>
   (compound_selector \<times> complex_selector) list \<times> compound_selector list" where
  "extendCompound_holder ops pSelector [] = ([], [])"
| "extendCompound_holder ops pSelector (groupedPair # arr) =
     (let seq = fst groupedPair;
          pSels = group_pSels (snd groupedPair);
          pSelectorWithoutExtendSelectors = ast_minus ops pSelector pSels;
          pInnermostCompoundSelector =
            (case head (ast_last ops seq) of None \<Rightarrow> new_Compound_Selector [] | Some h \<Rightarrow> h);
          pUnifiedSelector = ast_unify_with ops pInnermostCompoundSelector pSelectorWithoutExtendSelectors;
          rest = extendCompound_holder ops pSelector arr
      in case pUnifiedSelector of
           None \<Rightarrow> (fst rest, group_extended (snd groupedPair) @ snd rest)
         | Some unified \<Rightarrow>
             if elements unified = [] then (fst rest, group_extended (snd groupedPair) @ snd rest)
             else
               let pNewInnerMost = Complex_Selector ANCESTOR_OF (Some unified) None;
                   cleared = ast_clear_innermost ops seq;
                   pNewSelector = ast_set_innermost ops (snd cleared) pNewInnerMost (fst cleared);
                   newSourcesSet = List.insert seq (compound_sources pSelector)
               in ((pSels, ast_addSources ops newSourcesSet pNewSelector) # fst rest,
                   group_extended (snd groupedPair) @ snd rest))"

text \<open>Lines 1691-1702: the new selectors that \<open>extendedSelectors\<close> does not contain yet.\<close>

fun push_new_selectors ::
  "('k, 'sm) selector_ops \<Rightarrow> complex_selector node list \<Rightarrow> complex_selector node list \<Rightarrow>
   complex_selector node list" where
  "push_new_selectors ops extendedSelectors [] = extendedSelectors"
| "push_new_selectors ops extendedSelectors (newSelector # rest) =
     push_new_selectors ops
       (if \<not> list_ex (\<lambda>child. ast_node_equal ops child newSelector False) extendedSelectors
        then extendedSelectors @ [newSelector] else extendedSelectors)
       rest"

text \<open>
  Lines 1669-1703, the second loop. \<open>recurse\<close> is the call of
  \<^verbatim>\<open>extendComplexSelector\<close> on a new selector with a set \<open>recurseSeen\<close>.
\<close>

fun extendCompound_recurse ::
  "(complex_selector \<Rightarrow> 'k set \<Rightarrow> (error + complex_selector node \<times> compound_selector list) option) \<Rightarrow>
   ('k, 'sm) selector_ops \<Rightarrow> 'k set \<Rightarrow> (compound_selector \<times> complex_selector) list \<Rightarrow>
   complex_selector node list \<Rightarrow> compound_selector list \<Rightarrow>
   (error + complex_selector node list \<times> compound_selector list) option" where
  "extendCompound_recurse recurse ops seen [] extendedSelectors marked = Some (Inr (extendedSelectors, marked))"
| "extendCompound_recurse recurse ops seen (pair # holder) extendedSelectors marked =
     (if ast_seen_key ops (fst pair) \<in> seen
      then extendCompound_recurse recurse ops seen holder extendedSelectors marked
      else (case recurse (snd pair) (insert (ast_seen_key ops (fst pair)) seen) of
              None \<Rightarrow> None
            | Some (Inl e) \<Rightarrow> Some (Inl e)
            | Some (Inr (recurseExtendedSelectors, marked')) \<Rightarrow>
                (case node_collection recurseExtendedSelectors of
                   None \<Rightarrow> Some (Inl Undefined_Behaviour)
                 | Some newSelectors \<Rightarrow>
                     extendCompound_recurse recurse ops seen holder
                       (push_new_selectors ops extendedSelectors newSelectors) (marked @ marked'))))"

text \<open>
  Lines 1849-1876: the current selector, with the sources of an original selector that has
  no placeholder, is put in front of its extensions unless one of them is a superselector
  of it.
\<close>

definition extendComplex_choices ::
  "('k, 'sm) selector_ops \<Rightarrow> complex_selector \<Rightarrow> bool \<Rightarrow> complex_selector \<Rightarrow>
   complex_selector node list \<Rightarrow> complex_selector node list" where
  "extendComplex_choices ops pComplexSelector isOriginal sel extended_children =
     (let pJustCurrentCompoundSelector =
            (if isOriginal \<and> \<not> ast_has_placeholder ops pComplexSelector
             then ast_addSources ops [pComplexSelector] sel else sel);
          isSuperselector =
            list_ex (\<lambda>childNode.
               ast_is_superselector_of ops (ast_nodeToComplexSelector ops childNode)
                 pJustCurrentCompoundSelector) extended_children
      in if \<not> isSuperselector
         then ast_complexSelectorToNode ops pJustCurrentCompoundSelector # extended_children
         else extended_children)"

text \<open>
  Lines 1816-1885, the loop over the nodes of the complex selector. A selector node with a
  null head is dereferenced by \<^verbatim>\<open>extendCompoundSelector\<close>.
\<close>

fun extendComplex_positions ::
  "(compound_selector \<Rightarrow> (error + complex_selector node \<times> compound_selector list) option) \<Rightarrow>
   ('k, 'sm) selector_ops \<Rightarrow> complex_selector \<Rightarrow> bool \<Rightarrow> complex_selector node list \<Rightarrow>
   (error + complex_selector node list \<times> compound_selector list) option" where
  "extendComplex_positions extendCompound ops pComplexSelector isOriginal [] = Some (Inr ([], []))"
| "extendComplex_positions extendCompound ops pComplexSelector isOriginal (sseqOrOp # rest) =
     (case node_selector sseqOrOp of
        None \<Rightarrow>
          (case extendComplex_positions extendCompound ops pComplexSelector isOriginal rest of
             None \<Rightarrow> None
           | Some (Inl e) \<Rightarrow> Some (Inl e)
           | Some (Inr (extendedNotExpanded, marked)) \<Rightarrow>
               Some (Inr (Collection_Node [Collection_Node [sseqOrOp]] # extendedNotExpanded, marked)))
      | Some sel \<Rightarrow>
          (case head sel of
             None \<Rightarrow> Some (Inl Undefined_Behaviour)
           | Some pCompoundSelector \<Rightarrow>
               (case extendCompound pCompoundSelector of
                  None \<Rightarrow> None
                | Some (Inl e) \<Rightarrow> Some (Inl e)
                | Some (Inr (extendedNode, marked)) \<Rightarrow>
                    (case node_collection extendedNode of
                       None \<Rightarrow> Some (Inl Undefined_Behaviour)
                     | Some extended_children \<Rightarrow>
                         (case extendComplex_positions extendCompound ops pComplexSelector isOriginal rest of
                            None \<Rightarrow> None
                          | Some (Inl e) \<Rightarrow> Some (Inl e)
                          | Some (Inr (extendedNotExpanded, marked')) \<Rightarrow>
                              Some (Inr (Collection_Node
                                           (extendComplex_choices ops pComplexSelector isOriginal sel
                                              extended_children) # extendedNotExpanded,
                                         marked @ marked')))))))"

text \<open>Lines 1888-1902: \<open>paths\<close>, the \<open>weave\<close> of each path, \<open>trim\<close>, and \<open>flatten\<close> by one level.
  The group \<open>i\<close> of the weaves has the address \<open>i\<close>.\<close>

fun weave_paths ::
  "('k, 'sm) selector_ops \<Rightarrow> complex_selector node list \<Rightarrow> error + complex_selector node list list" where
  "weave_paths ops [] = Inr []"
| "weave_paths ops (path # paths) =
     (case node_collection path of
        None \<Rightarrow> Inl Undefined_Behaviour
      | Some path_children \<Rightarrow>
          (case weave ops path_children of
             Inl e \<Rightarrow> Inl e
           | Inr weaved \<Rightarrow>
               (case node_collection weaved of
                  None \<Rightarrow> Inl Undefined_Behaviour
                | Some weaved_children \<Rightarrow>
                    (case weave_paths ops paths of
                       Inl e \<Rightarrow> Inl e
                     | Inr weaves \<Rightarrow> Inr (weaved_children # weaves)))))"

definition extendComplex_finish ::
  "('k, 'sm) selector_ops \<Rightarrow> bool \<Rightarrow> complex_selector node list \<Rightarrow> error + complex_selector node" where
  "extendComplex_finish ops isReplace extendedNotExpanded =
     (case node_collection (ast_paths ops (Collection_Node extendedNotExpanded)) of
        None \<Rightarrow> Inl Undefined_Behaviour
      | Some paths \<Rightarrow>
          (case weave_paths ops paths of
             Inl e \<Rightarrow> Inl e
           | Inr weaves \<Rightarrow>
               let trimmed = trim (ast_nodeToComplexSelector ops) (ast_specificity ops) (ast_sources ops)
                               (ast_is_superselector_of ops) (length weaves) isReplace
                               (zip [0..<length weaves] weaves)
               in Inr (ast_flatten ops (Collection_Node (map (\<lambda>g. Collection_Node (snd g)) trimmed)) 1)))"

text \<open>The two functions.\<close>

fun extendCompoundSelector ::
  "nat \<Rightarrow> ('k, 'sm) selector_ops \<Rightarrow> 'sm \<Rightarrow> compound_selector \<Rightarrow> 'k set \<Rightarrow> bool \<Rightarrow>
   (error + complex_selector node \<times> compound_selector list) option"
and extendComplexSelector ::
  "nat \<Rightarrow> ('k, 'sm) selector_ops \<Rightarrow> 'sm \<Rightarrow> complex_selector \<Rightarrow> 'k set \<Rightarrow> bool \<Rightarrow> bool \<Rightarrow>
   (error + complex_selector node \<times> compound_selector list) option" where
  "extendCompoundSelector 0 ops subset_map pSelector seen isReplace = None"
| "extendCompoundSelector (Suc fuel) ops subset_map pSelector seen isReplace =
     (let arr = ast_group_by_to_a ops (ast_get_v ops subset_map pSelector);
          holder = extendCompound_holder ops pSelector arr
      in case extendCompound_recurse
                (\<lambda>pNewSelector recurseSeen.
                    extendComplexSelector fuel ops subset_map pNewSelector recurseSeen isReplace False)
                ops seen (fst holder) [] (snd holder) of
           None \<Rightarrow> None
         | Some (Inl e) \<Rightarrow> Some (Inl e)
         | Some (Inr (extendedSelectors, marked)) \<Rightarrow> Some (Inr (Collection_Node extendedSelectors, marked)))"
| "extendComplexSelector 0 ops subset_map pComplexSelector seen isReplace isOriginal = None"
| "extendComplexSelector (Suc fuel) ops subset_map pComplexSelector seen isReplace isOriginal =
     (case node_collection (ast_complexSelectorToNode ops pComplexSelector) of
        None \<Rightarrow> Some (Inl Undefined_Behaviour)
      | Some complexSelector \<Rightarrow>
          (case extendComplex_positions
                  (\<lambda>pCompoundSelector. extendCompoundSelector fuel ops subset_map pCompoundSelector seen isReplace)
                  ops pComplexSelector isOriginal complexSelector of
             None \<Rightarrow> None
           | Some (Inl e) \<Rightarrow> Some (Inl e)
           | Some (Inr (extendedNotExpanded, marked)) \<Rightarrow>
               (case extendComplex_finish ops isReplace extendedNotExpanded of
                  Inl e \<Rightarrow> Some (Inl e)
                | Inr extendedSelectors \<Rightarrow> Some (Inr (extendedSelectors, marked)))))"

text \<open>
  Modelled from the spec: the subset map and \<^verbatim>\<open>group_by_to_a\<close> are not defined in
  extend.cpp. The example is the map of \<^verbatim>\<open>.a { @extend .b }\<close> and
  \<^verbatim>\<open>.b { @extend .a }\<close>: the entries of a compound are the pairs (extender, extendee)
  whose extendee is among its simple selectors (section 4.4 of the specification), each
  extender forms a group of its own, and two compounds are the same member of \<open>seen\<close> if
  they have the same simple selectors.
\<close>

definition sel_b :: complex_selector where
  "sel_b = class_compound [''b''] []"

definition mutual_get_v :: "unit \<Rightarrow> compound_selector \<Rightarrow> subset_map_entries" where
  "mutual_get_v subset_map pSelector =
     (if Class_Selector ''b'' \<in> set (elements pSelector)
      then [(sel_a, new_Compound_Selector [Class_Selector ''b''])] else []) @
     (if Class_Selector ''a'' \<in> set (elements pSelector)
      then [(sel_b, new_Compound_Selector [Class_Selector ''a''])] else [])"

definition singleton_groups :: "subset_map_entries \<Rightarrow> (complex_selector \<times> subset_map_entries) list" where
  "singleton_groups entries = map (\<lambda>entry. (fst entry, [entry])) entries"

definition mutual_ops ::
  "(simple_selector list, unit) selector_ops \<Rightarrow> (simple_selector list, unit) selector_ops" where
  "mutual_ops ops = ops\<lparr>ast_get_v := mutual_get_v, ast_group_by_to_a := singleton_groups,
                        ast_seen_key := elements\<rparr>"

subsection \<open>complexSelectorHasExtension\<close>

text \<open>
  Lines 1711-1774. The text of the error of lines 1757-1765; the extendee's text, its line
  and its path come from \<open>ast_to_string\<close> and \<open>ast_line_and_path\<close>.
\<close>

definition outer_extend_message :: "string \<Rightarrow> string \<Rightarrow> string \<Rightarrow> string" where
  "outer_extend_message extendee line rel_path =
     ''You may not @extend an outer selector from within @media.'' @ newline @
     ''You may only @extend selectors within the same directive.'' @ newline @
     ''From '' @ double_quote @ ''@extend '' @ extendee @ double_quote @
     '' on line '' @ line @ '' of '' @ rel_path @ newline"

text \<open>
  Lines 1743-1766: an entry whose extendee has a media block is an error unless the head
  has one too and both have queries with the same text. \<open>media_queries\<close> of a block is the
  text of its queries, \<open>None\<close> for a null pointer.
\<close>

fun check_media_blocks ::
  "('k, 'sm) selector_ops \<Rightarrow> compound_selector \<Rightarrow> (complex_selector \<times> compound_selector) list \<Rightarrow>
   error + unit" where
  "check_media_blocks ops pHead [] = Inr ()"
| "check_media_blocks ops pHead (ext # entries) =
     (case media_block (snd ext) of
        None \<Rightarrow> check_media_blocks ops pHead entries
      | Some ext_block \<Rightarrow>
          if (case media_block pHead of
                None \<Rightarrow> False
              | Some head_block \<Rightarrow>
                  (case media_queries ext_block of
                     None \<Rightarrow> False
                   | Some query_left \<Rightarrow>
                       (case media_queries head_block of
                          None \<Rightarrow> False
                        | Some query_right \<Rightarrow> query_left = query_right)))
          then check_media_blocks ops pHead entries
          else Inl (Fatal (outer_extend_message (ast_to_string ops (snd ext))
                             (fst (ast_line_and_path ops (snd ext)))
                             (snd (ast_line_and_path ops (snd ext))))))"

text \<open>
  \<open>complexSelectorHasExtension\<close> is the loop of lines 1721-1771 from \<open>pIter\<close> on, with
  \<open>hasExtension\<close> still false; \<open>hasExtension_simples\<close> the loop of line 1726 over the simple
  selectors of a head that is not in \<open>seen\<close>; \<open>hasExtension_list\<close> the loop of line 1729
  over the selectors of a wrapped list; \<open>hasExtension_tails\<close> the loop of lines 1730-1736,
  which alone stops at the first extension found.
\<close>

fun complexSelectorHasExtension ::
  "('k, 'sm) selector_ops \<Rightarrow> 'sm \<Rightarrow> 'k set \<Rightarrow> complex_selector \<Rightarrow> error + bool"
and hasExtension_simples ::
  "('k, 'sm) selector_ops \<Rightarrow> 'sm \<Rightarrow> 'k set \<Rightarrow> simple_selector list \<Rightarrow> error + bool"
and hasExtension_list ::
  "('k, 'sm) selector_ops \<Rightarrow> 'sm \<Rightarrow> 'k set \<Rightarrow> complex_selector list \<Rightarrow> error + bool"
and hasExtension_tails ::
  "('k, 'sm) selector_ops \<Rightarrow> 'sm \<Rightarrow> 'k set \<Rightarrow> complex_selector \<Rightarrow> error + bool" where
  "complexSelectorHasExtension ops subset_map seen (Complex_Selector c None t) =
     (case t of
        None \<Rightarrow> Inr False
      | Some pIter \<Rightarrow> complexSelectorHasExtension ops subset_map seen pIter)"
| "complexSelectorHasExtension ops subset_map seen
     (Complex_Selector c (Some (Compound_Selector simples ext opt mb srcs)) t) =
     (let pHead = Compound_Selector simples ext opt mb srcs in
      case (if ast_seen_key ops pHead \<notin> seen
            then hasExtension_simples ops subset_map seen simples else Inr False) of
        Inl e \<Rightarrow> Inl e
      | Inr wrapped \<Rightarrow>
          (case check_media_blocks ops pHead (ast_get_v ops subset_map pHead) of
             Inl e \<Rightarrow> Inl e
           | Inr u \<Rightarrow>
               if wrapped \<or> ast_get_v ops subset_map pHead \<noteq> [] then Inr True
               else (case t of
                       None \<Rightarrow> Inr False
                     | Some pIter \<Rightarrow> complexSelectorHasExtension ops subset_map seen pIter)))"
| "hasExtension_simples ops subset_map seen [] = Inr False"
| "hasExtension_simples ops subset_map seen (pSimple # simples) =
     (case pSimple of
        Wrapped_Selector name sl \<Rightarrow>
          (case hasExtension_list ops subset_map seen sl of
             Inl e \<Rightarrow> Inl e
           | Inr found \<Rightarrow>
               (case hasExtension_simples ops subset_map seen simples of
                  Inl e \<Rightarrow> Inl e
                | Inr found' \<Rightarrow> Inr (found \<or> found')))
      | _ \<Rightarrow> hasExtension_simples ops subset_map seen simples)"
| "hasExtension_list ops subset_map seen [] = Inr False"
| "hasExtension_list ops subset_map seen (cs # sl) =
     (case hasExtension_tails ops subset_map seen cs of
        Inl e \<Rightarrow> Inl e
      | Inr found \<Rightarrow>
          (case hasExtension_list ops subset_map seen sl of
             Inl e \<Rightarrow> Inl e
           | Inr found' \<Rightarrow> Inr (found \<or> found')))"
| "hasExtension_tails ops subset_map seen (Complex_Selector c h t) =
     (case complexSelectorHasExtension ops subset_map seen (Complex_Selector c h t) of
        Inl e \<Rightarrow> Inl e
      | Inr found \<Rightarrow>
          if found then Inr True
          else (case t of
                  None \<Rightarrow> Inr False
                | Some cs \<Rightarrow> hasExtension_tails ops subset_map seen cs))"

subsection \<open>extendSelectorList\<close>

text \<open>
  Lines 1920-2020. \<open>extendList_loop\<close> is the loop of lines 1926-1956; it returns the new
  selectors and \<open>extendedSomething\<close>. \<open>extendComplex\<close> is the call of line 1941.
\<close>

fun extendList_loop ::
  "(complex_selector \<Rightarrow> (error + complex_selector node \<times> compound_selector list) option) \<Rightarrow>
   ('k, 'sm) selector_ops \<Rightarrow> 'sm \<Rightarrow> 'k set \<Rightarrow> bool \<Rightarrow> complex_selector list \<Rightarrow>
   (error + (complex_selector list \<times> bool) \<times> compound_selector list) option" where
  "extendList_loop extendComplex ops subset_map seen isReplace [] = Some (Inr (([], False), []))"
| "extendList_loop extendComplex ops subset_map seen isReplace (pSelector # rest) =
     (case complexSelectorHasExtension ops subset_map seen pSelector of
        Inl e \<Rightarrow> Some (Inl e)
      | Inr hasExtension \<Rightarrow>
          if \<not> hasExtension then
            (case extendList_loop extendComplex ops subset_map seen isReplace rest of
               None \<Rightarrow> None
             | Some (Inl e) \<Rightarrow> Some (Inl e)
             | Some (Inr ((pNewSelectors, extendedSomething), marked)) \<Rightarrow>
                 Some (Inr ((pSelector # pNewSelectors, extendedSomething), marked)))
          else
            (case extendComplex pSelector of
               None \<Rightarrow> None
             | Some (Inl e) \<Rightarrow> Some (Inl e)
             | Some (Inr (extendedSelectors, marked)) \<Rightarrow>
                 (case node_collection extendedSelectors of
                    None \<Rightarrow> Some (Inl Undefined_Behaviour)
                  | Some children \<Rightarrow>
                      let pushed =
                            (if \<not> ast_has_placeholder ops pSelector \<and>
                                \<not> list_ex (\<lambda>child. ast_node_equal ops child
                                               (ast_complexSelectorToNode ops pSelector) True) children
                             then [pSelector]
                             else map (ast_nodeToComplexSelector ops)
                                    (if isReplace \<and> 1 < length children then tl children else children))
                      in (case extendList_loop extendComplex ops subset_map seen isReplace rest of
                            None \<Rightarrow> None
                          | Some (Inl e) \<Rightarrow> Some (Inl e)
                          | Some (Inr ((pNewSelectors, extendedSomething), marked')) \<Rightarrow>
                              Some (Inr ((pushed @ pNewSelectors, True), marked @ marked'))))))"

text \<open>
  Lines 1964-2017, the pass that unwraps the wrapped selectors with inner lists.
  \<open>unwrap_extended\<close> is the body of the loop of line 1985 for one selector of the extended
  inner list, \<open>unwrap_simples\<close> the loop of line 1973 that fills \<open>cpy_head\<close>,
  \<open>unwrap_tails\<close> the loop of line 1966 along the tails of one selector, and
  \<open>unwrap_list\<close> the loop of line 1964. \<open>extendInner\<close> is the call of line 1984. The
  selectors of a list are separate objects.
\<close>

definition unwrap_extended :: "('k, 'sm) selector_ops \<Rightarrow> string \<Rightarrow> complex_selector \<Rightarrow> simple_selector list" where
  "unwrap_extended ops name ext_cs =
     (case ast_first ops ext_cs of
        None \<Rightarrow> [Wrapped_Selector name []]
      | Some first_cs \<Rightarrow>
          if ast_has_wrapped_selector ops first_cs then [] else [Wrapped_Selector name [first_cs]])"

fun unwrap_simples ::
  "(complex_selector list \<Rightarrow> (error + complex_selector list \<times> compound_selector list) option) \<Rightarrow>
   ('k, 'sm) selector_ops \<Rightarrow> simple_selector list \<Rightarrow>
   (error + simple_selector list \<times> compound_selector list) option" where
  "unwrap_simples extendInner ops [] = Some (Inr ([], []))"
| "unwrap_simples extendInner ops (hs # rest) =
     (case (case hs of
              Wrapped_Selector name sl \<Rightarrow>
                if sl = [] then Some (Inr ([Type_Selector name], []))
                else (case extendInner sl of
                        None \<Rightarrow> None
                      | Some (Inl e) \<Rightarrow> Some (Inl e)
                      | Some (Inr (ext_sl, marked)) \<Rightarrow>
                          Some (Inr (concat (map (unwrap_extended ops name) ext_sl), marked)))
            | _ \<Rightarrow> Some (Inr ([hs], []))) of
        None \<Rightarrow> None
      | Some (Inl e) \<Rightarrow> Some (Inl e)
      | Some (Inr (copies, marked)) \<Rightarrow>
          (case unwrap_simples extendInner ops rest of
             None \<Rightarrow> None
           | Some (Inl e) \<Rightarrow> Some (Inl e)
           | Some (Inr (cpy_rest, marked')) \<Rightarrow> Some (Inr (copies @ cpy_rest, marked @ marked'))))"

fun unwrap_tails ::
  "(complex_selector list \<Rightarrow> 'k set \<Rightarrow> (error + complex_selector list \<times> compound_selector list) option) \<Rightarrow>
   ('k, 'sm) selector_ops \<Rightarrow> 'k set \<Rightarrow> complex_selector \<Rightarrow>
   (error + complex_selector \<times> compound_selector list) option" where
  "unwrap_tails extendInner ops seen (Complex_Selector c h t) =
     (case (case h of
              None \<Rightarrow> Some (Inr (None, []))
            | Some cur_head \<Rightarrow>
                if ast_seen_key ops cur_head \<in> seen then Some (Inr (Some cur_head, []))
                else (case unwrap_simples
                             (\<lambda>sl. extendInner sl (insert (ast_seen_key ops cur_head) seen))
                             ops (elements cur_head) of
                        None \<Rightarrow> None
                      | Some (Inl e) \<Rightarrow> Some (Inl e)
                      | Some (Inr (cpy, marked)) \<Rightarrow>
                          Some (Inr (Some (new_Compound_Selector cpy), marked)))) of
        None \<Rightarrow> None
      | Some (Inl e) \<Rightarrow> Some (Inl e)
      | Some (Inr (cpy_head, marked)) \<Rightarrow>
          (case t of
             None \<Rightarrow> Some (Inr (Complex_Selector c cpy_head None, marked))
           | Some cur \<Rightarrow>
               (case unwrap_tails extendInner ops seen cur of
                  None \<Rightarrow> None
                | Some (Inl e) \<Rightarrow> Some (Inl e)
                | Some (Inr (cpy_tail, marked')) \<Rightarrow>
                    Some (Inr (Complex_Selector c cpy_head (Some cpy_tail), marked @ marked')))))"

fun unwrap_list ::
  "(complex_selector list \<Rightarrow> 'k set \<Rightarrow> (error + complex_selector list \<times> compound_selector list) option) \<Rightarrow>
   ('k, 'sm) selector_ops \<Rightarrow> 'k set \<Rightarrow> complex_selector list \<Rightarrow>
   (error + complex_selector list \<times> compound_selector list) option" where
  "unwrap_list extendInner ops seen [] = Some (Inr ([], []))"
| "unwrap_list extendInner ops seen (cur # rest) =
     (case unwrap_tails extendInner ops seen cur of
        None \<Rightarrow> None
      | Some (Inl e) \<Rightarrow> Some (Inl e)
      | Some (Inr (cpy, marked)) \<Rightarrow>
          (case unwrap_list extendInner ops seen rest of
             None \<Rightarrow> None
           | Some (Inl e) \<Rightarrow> Some (Inl e)
           | Some (Inr (cpy_rest, marked')) \<Rightarrow> Some (Inr (cpy # cpy_rest, marked @ marked'))))"

text \<open>
  Modelled from the spec: the overload \<^verbatim>\<open>extendSelectorList(sl, ctx, subset_map, recseen)\<close>
  of line 1984 is not defined in extend.cpp. By section 4.8 of the specification it extends
  the inner list under the extended set; it is taken to be the function below itself with
  \<open>isReplace\<close> false, its \<open>extendedSomething\<close> dropped.

  The function has a fuel for the calls of \<^verbatim>\<open>extendComplexSelector\<close> and for the recursion
  into the wrapped lists. The result is the returned list, \<open>extendedSomething\<close> and the
  extendees marked.
\<close>

fun extendSelectorList ::
  "nat \<Rightarrow> ('k, 'sm) selector_ops \<Rightarrow> 'sm \<Rightarrow> complex_selector list \<Rightarrow> bool \<Rightarrow> 'k set \<Rightarrow>
   (error + (complex_selector list \<times> bool) \<times> compound_selector list) option" where
  "extendSelectorList 0 ops subset_map pSelectorList isReplace seen = None"
| "extendSelectorList (Suc fuel) ops subset_map pSelectorList isReplace seen =
     (case extendList_loop
             (\<lambda>pSelector. extendComplexSelector fuel ops subset_map pSelector seen isReplace True)
             ops subset_map seen isReplace pSelectorList of
        None \<Rightarrow> None
      | Some (Inl e) \<Rightarrow> Some (Inl e)
      | Some (Inr ((pNewSelectors, extendedSomething), marked)) \<Rightarrow>
          (case unwrap_list
                  (\<lambda>sl recseen.
                      case extendSelectorList fuel ops subset_map sl False recseen of
                        None \<Rightarrow> None
                      | Some (Inl e) \<Rightarrow> Some (Inl e)
                      | Some (Inr ((ext_sl, inner_extendedSomething), inner_marked)) \<Rightarrow>
                          Some (Inr (ext_sl, inner_marked)))
                  ops seen (ast_remove_placeholders ops pNewSelectors) of
             None \<Rightarrow> None
           | Some (Inl e) \<Rightarrow> Some (Inl e)
           | Some (Inr (result, marked')) \<Rightarrow>
               Some (Inr ((result, extendedSomething), marked @ marked'))))"

text \<open>
  A complex selector is plain if every head has the fields of a new compound and no
  wrapped selector with a list. \<open>wrapped_depth\<close> is the nesting depth of wrapped lists.
\<close>

fun is_wrapped_list :: "simple_selector \<Rightarrow> bool" where
  "is_wrapped_list (Wrapped_Selector name sl) = True"
| "is_wrapped_list s = False"

definition plain_compound :: "compound_selector \<Rightarrow> bool" where
  "plain_compound h = (h = new_Compound_Selector (elements h) \<and> \<not> list_ex is_wrapped_list (elements h))"

fun plain_complex :: "complex_selector \<Rightarrow> bool" where
  "plain_complex (Complex_Selector c h t) =
     ((case h of None \<Rightarrow> True | Some cur_head \<Rightarrow> plain_compound cur_head) \<and>
      (case t of None \<Rightarrow> True | Some cur \<Rightarrow> plain_complex cur))"

fun wrapped_depth :: "complex_selector \<Rightarrow> nat"
and wrapped_depth_simples :: "simple_selector list \<Rightarrow> nat"
and wrapped_depth_list :: "complex_selector list \<Rightarrow> nat" where
  "wrapped_depth (Complex_Selector c None t) =
     (case t of None \<Rightarrow> 0 | Some cur \<Rightarrow> wrapped_depth cur)"
| "wrapped_depth (Complex_Selector c (Some (Compound_Selector simples ext opt mb srcs)) t) =
     max (wrapped_depth_simples simples) (case t of None \<Rightarrow> 0 | Some cur \<Rightarrow> wrapped_depth cur)"
| "wrapped_depth_simples [] = 0"
| "wrapped_depth_simples (hs # rest) =
     max (case hs of Wrapped_Selector name sl \<Rightarrow> Suc (wrapped_depth_list sl) | _ \<Rightarrow> 0)
         (wrapped_depth_simples rest)"
| "wrapped_depth_list [] = 0"
| "wrapped_depth_list (cs # sl) = max (wrapped_depth cs) (wrapped_depth_list sl)"

text \<open>
  The list returned on an empty subset map, described directly, for a placeholder removal
  that keeps the selectors satisfying \<open>keep\<close>. The selectors that the removal drops are
  missing. In the others every head that is not in \<open>seen\<close> is replaced by a new compound:
  a wrapped selector with an empty list becomes a type selector of its name, a wrapped
  selector with a list becomes one wrapped selector for each selector of that list as
  returned for it under \<open>seen\<close> with the head inserted (holding the \<^verbatim>\<open>first\<close> of that
  selector, nothing if there is none, and left out if the \<^verbatim>\<open>first\<close> has a wrapped
  selector), and the other simple selectors are kept.
\<close>

fun empty_map_complex ::
  "('k, 'sm) selector_ops \<Rightarrow> (complex_selector \<Rightarrow> bool) \<Rightarrow> 'k set \<Rightarrow> complex_selector \<Rightarrow> complex_selector"
and empty_map_simples ::
  "('k, 'sm) selector_ops \<Rightarrow> (complex_selector \<Rightarrow> bool) \<Rightarrow> 'k set \<Rightarrow> simple_selector list \<Rightarrow>
   simple_selector list"
and empty_map_list ::
  "('k, 'sm) selector_ops \<Rightarrow> (complex_selector \<Rightarrow> bool) \<Rightarrow> 'k set \<Rightarrow> complex_selector list \<Rightarrow>
   complex_selector list" where
  "empty_map_complex ops keep seen (Complex_Selector c None t) =
     Complex_Selector c None
       (case t of None \<Rightarrow> None | Some cur \<Rightarrow> Some (empty_map_complex ops keep seen cur))"
| "empty_map_complex ops keep seen (Complex_Selector c (Some (Compound_Selector simples ext opt mb srcs)) t) =
     Complex_Selector c
       (if ast_seen_key ops (Compound_Selector simples ext opt mb srcs) \<in> seen
        then Some (Compound_Selector simples ext opt mb srcs)
        else Some (Compound_Selector
                     (empty_map_simples ops keep
                        (insert (ast_seen_key ops (Compound_Selector simples ext opt mb srcs)) seen) simples)
                     False False None []))
       (case t of None \<Rightarrow> None | Some cur \<Rightarrow> Some (empty_map_complex ops keep seen cur))"
| "empty_map_simples ops keep seen [] = []"
| "empty_map_simples ops keep seen (hs # rest) =
     (case hs of
        Wrapped_Selector name sl \<Rightarrow>
          if sl = [] then [Type_Selector name]
          else concat (map (\<lambda>inner.
                  case ast_first ops inner of
                    None \<Rightarrow> [Wrapped_Selector name []]
                  | Some first_cs \<Rightarrow>
                      if ast_has_wrapped_selector ops first_cs then []
                      else [Wrapped_Selector name [first_cs]])
                (empty_map_list ops keep seen sl))
      | _ \<Rightarrow> [hs]) @
     empty_map_simples ops keep seen rest"
| "empty_map_list ops keep seen [] = []"
| "empty_map_list ops keep seen (cs # sl) =
     (if keep cs then [empty_map_complex ops keep seen cs] else []) @ empty_map_list ops keep seen sl"

text \<open>
  Modelled from the spec: the placeholder removal, \<^verbatim>\<open>first\<close> and
  \<^verbatim>\<open>has_wrapped_selector\<close> are not defined in extend.cpp. In the examples the removal
  drops the complex selectors with a placeholder in a head (section 2 of the
  specification: placeholders are stripped before output), \<^verbatim>\<open>first\<close> of a selector without
  parent reference is the selector itself, and \<^verbatim>\<open>has_wrapped_selector\<close> holds if some head
  has a wrapped selector. The subset map is empty. The selectors are \<^verbatim>\<open>%p\<close>,
  \<^verbatim>\<open>:not(.a, .b)\<close> and \<^verbatim>\<open>:not(.a):not(.b)\<close>.
\<close>

fun is_placeholder :: "simple_selector \<Rightarrow> bool" where
  "is_placeholder (Placeholder_Selector name) = True"
| "is_placeholder s = False"

fun is_wrapped :: "simple_selector \<Rightarrow> bool" where
  "is_wrapped (Wrapped_Selector name sl) = True"
| "is_wrapped (Wrapped_Other name arg) = True"
| "is_wrapped s = False"

fun head_exists :: "(simple_selector \<Rightarrow> bool) \<Rightarrow> complex_selector \<Rightarrow> bool" where
  "head_exists p (Complex_Selector c h t) =
     ((case h of None \<Rightarrow> False | Some cur_head \<Rightarrow> list_ex p (elements cur_head)) \<or>
      (case t of None \<Rightarrow> False | Some cur \<Rightarrow> head_exists p cur))"

definition example_remove_placeholders :: "complex_selector list \<Rightarrow> complex_selector list" where
  "example_remove_placeholders sl = filter (\<lambda>s. \<not> head_exists is_placeholder s) sl"

definition empty_map_ops ::
  "(simple_selector list, unit) selector_ops \<Rightarrow> (simple_selector list, unit) selector_ops" where
  "empty_map_ops ops = ops\<lparr>ast_get_v := (\<lambda>subset_map pHead. []),
                           ast_remove_placeholders := example_remove_placeholders,
                           ast_first := Some,
                           ast_has_wrapped_selector := head_exists is_wrapped,
                           ast_seen_key := elements\<rparr>"

definition sel_placeholder :: complex_selector where
  "sel_placeholder =
     Complex_Selector ANCESTOR_OF (Some (new_Compound_Selector [Placeholder_Selector ''p''])) None"

definition sel_not_a_b :: complex_selector where
  "sel_not_a_b =
     Complex_Selector ANCESTOR_OF
       (Some (new_Compound_Selector [Wrapped_Selector '':not'' [sel_a, sel_b]])) None"

definition sel_not_a_not_b :: complex_selector where
  "sel_not_a_not_b =
     Complex_Selector ANCESTOR_OF
       (Some (new_Compound_Selector [Wrapped_Selector '':not'' [sel_a], Wrapped_Selector '':not'' [sel_b]]))
       None"

section \<open>Properties\<close>

subsection \<open>trim\<close>

lemma fold_max_eq:
  "fold (\<lambda>x m. max m (f x)) xs (a::nat) = Max (insert a (f ` set xs))"
proof (induction xs arbitrary: a)
  case Nil
  then show ?case by simp
next
  case (Cons x xs)
  have "Max (insert (max a (f x)) (f ` set xs)) = Max (insert a (insert (f x) (f ` set xs)))"
    by (cases "f ` set xs = {}") (simp_all add: max.assoc)
  with Cons show ?case by simp
qed

lemma maxSpecificity_Max:
  "maxSpecificity specificity sources isReplace s =
     Max (insert (if isReplace then specificity s else 0) (specificity ` set (sources s)))"
  by (simp add: maxSpecificity_def fold_max_eq)

lemma isMoreSpecificInner_iff:
  "isMoreSpecificInner n2c spec is_sup m p seqs2 =
     (\<exists>seq2\<in>set seqs2. spec (n2c seq2) \<ge> m \<and> is_sup (n2c seq2) p)"
  by (induction seqs2) (auto simp: Let_def)

lemma isMoreSpecificOuter_iff:
  "isMoreSpecificOuter n2c spec is_sup m p c result =
     (\<exists>g\<in>set result. fst g \<noteq> c \<and> (\<exists>seq2\<in>set (snd g). spec (n2c seq2) \<ge> m \<and> is_sup (n2c seq2) p))"
  by (induction result) (auto simp: isMoreSpecificInner_iff)

lemma trim_seqs1_filter:
  "trim_seqs1 n2c spec srcs is_sup r c result seqs1 =
     filter (\<lambda>seq1. \<not> isMoreSpecificOuter n2c spec is_sup (maxSpecificity spec srcs r (n2c seq1)) (n2c seq1) c result) seqs1"
  by (induction seqs1) (auto simp: Let_def)

lemma trim_loop_length:
  "length (trim_loop n2c spec srcs is_sup a r i rest result) = length result"
  by (induction rest arbitrary: i result) (auto simp: Let_def)

lemma trim_loop_take:
  "take i (trim_loop n2c spec srcs is_sup a r i rest result) = take i result"
proof (induction rest arbitrary: i result)
  case Nil
  then show ?case by simp
next
  case (Cons seqs1 rest)
  let ?res' = "result[i := (a + i, trim_seqs1 n2c spec srcs is_sup r (fst seqs1) result (snd seqs1))]"
  let ?R = "trim_loop n2c spec srcs is_sup a r (Suc i) rest ?res'"
  have "take (Suc i) ?R = take (Suc i) ?res'" by (rule Cons.IH)
  then have "take i (take (Suc i) ?R) = take i (take (Suc i) ?res')" by simp
  then have "take i ?R = take i ?res'" by (simp add: min_def)
  then show ?case by (simp add: Let_def)
qed

lemma trim_loop_nth:
  assumes "length result = i + length rest" "drop i result = rest" "k < length rest"
  shows "trim_loop n2c spec srcs is_sup a r i rest result ! (i + k) =
          (a + i + k,
           trim_seqs1 n2c spec srcs is_sup r (fst (rest ! k))
             (take (i + k) (trim_loop n2c spec srcs is_sup a r i rest result) @ drop k rest)
             (snd (rest ! k)))"
  using assms
proof (induction rest arbitrary: i result k)
  case Nil
  then show ?case by simp
next
  case (Cons seqs1 rest)
  let ?tmp = "trim_seqs1 n2c spec srcs is_sup r (fst seqs1) result (snd seqs1)"
  let ?res' = "result[i := (a + i, ?tmp)]"
  let ?R = "trim_loop n2c spec srcs is_sup a r (Suc i) rest ?res'"
  have R: "trim_loop n2c spec srcs is_sup a r i (seqs1 # rest) result = ?R"
    by (simp add: Let_def)
  have len': "length ?res' = Suc i + length rest" using Cons.prems by simp
  have i_lt: "i < length result" using Cons.prems by simp
  have drop': "drop (Suc i) ?res' = rest"
  proof -
    have "drop (Suc i) result = tl (drop i result)" by (simp add: drop_Suc tl_drop)
    then show ?thesis using Cons.prems(2) by simp
  qed
  show ?case
  proof (cases k)
    case 0
    have takeR: "take (Suc i) ?R = take (Suc i) ?res'" by (rule trim_loop_take)
    have "take (Suc i) ?R ! i = take (Suc i) ?res' ! i" using takeR by simp
    then have "?R ! i = ?res' ! i" by simp
    then have Ri: "?R ! i = (a + i, ?tmp)" using i_lt by simp
    have "take i (take (Suc i) ?R) = take i (take (Suc i) ?res')" using takeR by simp
    then have "take i ?R = take i ?res'" by (simp add: min_def)
    then have ti: "take i ?R = take i result" by simp
    have "take i result @ drop i result = result" by simp
    then have res: "take i result @ seqs1 # rest = result" using Cons.prems(2) by simp
    show ?thesis unfolding R by (simp add: 0 Ri ti res)
  next
    case (Suc k')
    have "k' < length rest" using Cons.prems(3) Suc by simp
    from Cons.IH[OF len' drop' this]
    show ?thesis unfolding R using Suc by simp
  qed
qed

lemma trim_nth:
  assumes "length seqses \<le> 100" "i < length seqses"
  shows "trim n2c sp srcs is_sup a r seqses ! i =
          (a + i, trim_seqs1 n2c sp srcs is_sup r (fst (seqses ! i))
             (working_result (trim n2c sp srcs is_sup a r seqses) seqses i) (snd (seqses ! i)))"
proof -
  have "trim n2c sp srcs is_sup a r seqses = trim_loop n2c sp srcs is_sup a r 0 seqses seqses"
    using assms(1) by (simp add: trim_def)
  moreover have "trim_loop n2c sp srcs is_sup a r 0 seqses seqses ! (0 + i) =
          (a + 0 + i, trim_seqs1 n2c sp srcs is_sup r (fst (seqses ! i))
             (take (0 + i) (trim_loop n2c sp srcs is_sup a r 0 seqses seqses) @ drop i seqses)
             (snd (seqses ! i)))"
    by (rule trim_loop_nth) (use assms(2) in simp_all)
  ultimately show ?thesis by (simp add: working_result_def)
qed

lemma trim_length: "length (trim n2c sp srcs is_sup a r seqses) = length seqses"
  by (simp add: trim_def trim_loop_length)

lemma working_result_length:
  "i \<le> length seqses \<Longrightarrow> length (working_result (trim n2c sp srcs is_sup a r seqses) seqses i) = length seqses"
  by (simp add: working_result_def trim_length)

lemma working_result_nth:
  assumes "i \<le> length seqses" "j < length seqses" "length T = length seqses"
  shows "working_result T seqses i ! j = (if j < i then T ! j else seqses ! j)"
  using assms by (auto simp: working_result_def nth_append)

lemma working_result_fst:
  assumes len: "length seqses \<le> 100" and dist: "distinct (map fst seqses)"
    and fresh: "\<forall>g\<in>set seqses. fst g < a" and i: "i < length seqses" and j: "j < length seqses"
  shows "(fst (working_result (trim n2c sp srcs is_sup a r seqses) seqses i ! j) \<noteq> fst (seqses ! i)) = (j \<noteq> i)"
proof (cases "j < i")
  case True
  have "fst (trim n2c sp srcs is_sup a r seqses ! j) = a + j"
    using trim_nth[OF len j, of n2c sp srcs is_sup a r] by simp
  moreover have "fst (seqses ! i) < a" using fresh i by simp
  ultimately show ?thesis
    using True i j by (simp add: working_result_nth trim_length)
next
  case False
  have "(fst (seqses ! j) = fst (seqses ! i)) = (j = i)"
    using dist i j nth_eq_iff_index_eq[of "map fst seqses" j i] by simp
  then show ?thesis using False i j by (simp add: working_result_nth trim_length)
qed

lemma ex_set_conv_nth: "(\<exists>x\<in>set xs. P x) = (\<exists>j<length xs. P (xs ! j))"
  by (metis in_set_conv_nth)

lemma trim_group_filter:
  assumes len: "length seqses \<le> 100" and dist: "distinct (map fst seqses)"
    and fresh: "\<forall>g\<in>set seqses. fst g < alloc" and i: "i < length seqses"
  shows "snd (trim nodeToComplexSelector specificity sources is_superselector_of alloc isReplace seqses ! i) =
           filter (\<lambda>seq1. \<not> (\<exists>j<length seqses. j \<noteq> i \<and>
                    (\<exists>seq2\<in>set (snd (working_result
                         (trim nodeToComplexSelector specificity sources is_superselector_of alloc isReplace seqses)
                         seqses i ! j)).
                       trims specificity sources is_superselector_of isReplace
                         (nodeToComplexSelector seq2) (nodeToComplexSelector seq1))))
             (snd (seqses ! i))"
proof -
  let ?T = "trim nodeToComplexSelector specificity sources is_superselector_of alloc isReplace seqses"
  let ?W = "working_result ?T seqses i"
  have lenW: "length ?W = length seqses" using i by (simp add: working_result_length)
  have outer: "isMoreSpecificOuter nodeToComplexSelector specificity is_superselector_of
           (maxSpecificity specificity sources isReplace (nodeToComplexSelector seq1))
           (nodeToComplexSelector seq1) (fst (seqses ! i)) ?W =
        (\<exists>j<length seqses. j \<noteq> i \<and> (\<exists>seq2\<in>set (snd (?W ! j)).
            trims specificity sources is_superselector_of isReplace
               (nodeToComplexSelector seq2) (nodeToComplexSelector seq1)))" for seq1
  proof -
    let ?Q = "\<lambda>g. \<exists>seq2\<in>set (snd g). trims specificity sources is_superselector_of isReplace
               (nodeToComplexSelector seq2) (nodeToComplexSelector seq1)"
    have "isMoreSpecificOuter nodeToComplexSelector specificity is_superselector_of
           (maxSpecificity specificity sources isReplace (nodeToComplexSelector seq1))
           (nodeToComplexSelector seq1) (fst (seqses ! i)) ?W =
          (\<exists>g\<in>set ?W. fst g \<noteq> fst (seqses ! i) \<and> ?Q g)"
      by (simp add: isMoreSpecificOuter_iff trims_def)
    also have "\<dots> = (\<exists>j<length ?W. fst (?W ! j) \<noteq> fst (seqses ! i) \<and> ?Q (?W ! j))"
      by (rule ex_set_conv_nth)
    also have "\<dots> = (\<exists>j<length seqses. j \<noteq> i \<and> ?Q (?W ! j))"
      unfolding lenW
      using working_result_fst[OF len dist fresh i, of _ nodeToComplexSelector specificity sources is_superselector_of isReplace]
      by blast
    finally show ?thesis .
  qed
  have "snd (?T ! i) = trim_seqs1 nodeToComplexSelector specificity sources is_superselector_of isReplace
           (fst (seqses ! i)) ?W (snd (seqses ! i))"
    using trim_nth[OF len i, of nodeToComplexSelector specificity sources is_superselector_of alloc isReplace] by simp
  then have "snd (?T ! i) =
           filter (\<lambda>seq1. \<not> (\<exists>j<length seqses. j \<noteq> i \<and>
                    (\<exists>seq2\<in>set (snd (?W ! j)).
                       trims specificity sources is_superselector_of isReplace
                         (nodeToComplexSelector seq2) (nodeToComplexSelector seq1))))
             (snd (seqses ! i))"
    by (simp only: trim_seqs1_filter outer)
  then show ?thesis .
qed

text \<open>
  C8. For every input whose number of groups exceeds 100, \<open>trim\<close> returns the input
  unchanged: no selector is removed, whatever the specificities, the sources and the
  superselector relation are. (The rule for at most 100 groups is \<open>trim_drop_rule\<close>.)
\<close>

theorem trim_over_100_unchanged:
  "length seqses > 100 \<Longrightarrow>
   trim nodeToComplexSelector specificity sources is_superselector_of alloc isReplace seqses = seqses"
  by (simp add: trim_def)

text \<open>
  101 groups that all hold \<^verbatim>\<open>.a\<close>: with the rule applied, every group but the last
  would lose it; the input comes back as it is.
\<close>

theorem trim_over_100_unchanged_witness:
  "length groups_101 > 100 \<and>
   trim (\<lambda>n. n) example_specificity example_sources example_is_superselector_of 101 False groups_101 =
     groups_101"
proof -
  have h: "length groups_101 > 100" by (simp add: groups_101_def)
  show ?thesis using trim_over_100_unchanged[OF h] h by simp
qed

text \<open>
  C1 (amended). For every input of \<open>trim\<close> with at most 100 groups (whose collections
  are pairwise distinct and allocated before the call), the group \<open>i\<close> of the output
  holds the selectors \<open>seq1\<close> of the group \<open>i\<close> of the input, in order, except those for
  which some group \<open>j \<noteq> i\<close> of the working result holds a \<open>seq2\<close> with
  \<open>specificity seq2 \<ge> maxSpecificity seq1\<close> that is a superselector of \<open>seq1\<close>. The
  working result holds the groups before \<open>i\<close> as already trimmed and the groups after
  \<open>i\<close> as in the input. The threshold is the maximum of the specificities of the
  sources of \<open>seq1\<close> and 0 when \<open>isReplace\<close> is false, and the maximum of these and the
  specificity of \<open>seq1\<close> when \<open>isReplace\<close> is true.
\<close>

theorem trim_drop_rule:
  assumes len: "length seqses \<le> 100" and dist: "distinct (map fst seqses)"
    and fresh: "\<forall>g\<in>set seqses. fst g < alloc" and i: "i < length seqses"
  shows "snd (trim nodeToComplexSelector specificity sources is_superselector_of alloc isReplace seqses ! i) =
           filter (\<lambda>seq1. \<not> (\<exists>j<length seqses. j \<noteq> i \<and>
                    (\<exists>seq2\<in>set (snd (working_result
                         (trim nodeToComplexSelector specificity sources is_superselector_of alloc isReplace seqses)
                         seqses i ! j)).
                       trims specificity sources is_superselector_of isReplace
                         (nodeToComplexSelector seq2) (nodeToComplexSelector seq1))))
             (snd (seqses ! i))
         \<and> (\<forall>s1. maxSpecificity specificity sources isReplace s1 =
                Max (insert (if isReplace then specificity s1 else 0) (specificity ` set (sources s1))))"
  using trim_group_filter[OF len dist fresh i, of nodeToComplexSelector specificity sources
      is_superselector_of isReplace]
    maxSpecificity_Max[of specificity sources isReplace]
  by blast

text \<open>
  Two groups that both hold \<^verbatim>\<open>.a\<close>: the first group is emptied, so the second keeps
  its \<^verbatim>\<open>.a\<close>. The threshold of \<^verbatim>\<open>.a\<close> with the source \<^verbatim>\<open>.x.y\<close> is 200.
\<close>

theorem trim_drop_rule_witness:
  "length groups_a_a \<le> 100 \<and> distinct (map fst groups_a_a) \<and> list_all (\<lambda>g. fst g < 2) groups_a_a \<and>
   1 < length groups_a_a \<and>
   snd (trim (\<lambda>n. n) example_specificity example_sources example_is_superselector_of 2 False groups_a_a ! 1) =
     [sel_a] \<and>
   maxSpecificity example_specificity example_sources False sel_a_from_x_y = 200"
proof -
  have h1: "length groups_a_a \<le> 100" by (simp add: groups_a_a_def)
  have h2: "distinct (map fst groups_a_a)" by (simp add: groups_a_a_def)
  have h3: "\<forall>g\<in>set groups_a_a. fst g < 2" by (simp add: groups_a_a_def)
  have h4: "1 < length groups_a_a" by (simp add: groups_a_a_def)
  note rule = trim_drop_rule[OF h1 h2 h3 h4, of "\<lambda>n. n" example_specificity example_sources
      example_is_superselector_of False]
  have T: "trim (\<lambda>n. n) example_specificity example_sources example_is_superselector_of 2 False groups_a_a =
        [(2, []), (3, [sel_a])]"
    by code_simp
  have W: "working_result [(2, []), (3, [sel_a])] groups_a_a 1 = [(2, []), (1, [sel_a])]"
    by (simp add: working_result_def groups_a_a_def)
  have len: "length groups_a_a = Suc (Suc 0)" by (simp add: groups_a_a_def)
  have "snd (trim (\<lambda>n. n) example_specificity example_sources example_is_superselector_of 2 False groups_a_a ! 1) =
      [sel_a]"
    using rule unfolding T W len by (simp add: groups_a_a_def less_Suc_eq)
  moreover have "maxSpecificity example_specificity example_sources False sel_a_from_x_y = 200"
  proof -
    have "Max (insert (if False then example_specificity sel_a_from_x_y else 0)
           (example_specificity ` set (example_sources sel_a_from_x_y))) = 200"
      by (simp add: sel_a_from_x_y_def sel_x_y_def class_compound_def example_sources_def)
    then show ?thesis using rule by simp
  qed
  ultimately show ?thesis using h1 h2 h4 by (simp add: groups_a_a_def)
qed

text \<open>
  The claim as the specification words it fails in three ways.
  With \<open>isReplace\<close> false, \<^verbatim>\<open>.a.b\<close> (specificity 200, no source) is dropped on account
  of \<^verbatim>\<open>.a\<close> (specificity 100): the specificity of \<open>s1\<close> is not part of the threshold.
  With \<open>isReplace\<close> true, \<^verbatim>\<open>.a\<close> with the source \<^verbatim>\<open>.x.y\<close> is kept although \<^verbatim>\<open>.a\<close> in
  the other group reaches its specificity: the sources raise the threshold to 200.
  Of two groups that hold \<^verbatim>\<open>.a\<close>, the second keeps it although the first group of the
  input holds \<^verbatim>\<open>.a\<close>: the first group is compared as already trimmed.
\<close>

theorem trim_rule_counterexample:
  "sel_a_b \<notin> set (snd (trim (\<lambda>n. n) example_specificity example_sources example_is_superselector_of 2 False groups_ab_a ! 0)) \<and>
   \<not> dropped_as_specified example_specificity example_sources example_is_superselector_of False groups_ab_a 0 sel_a_b \<and>
   sel_a_from_x_y \<in> set (snd (trim (\<lambda>n. n) example_specificity example_sources example_is_superselector_of 2 True groups_asrc_a ! 0)) \<and>
   dropped_as_specified example_specificity example_sources example_is_superselector_of True groups_asrc_a 0 sel_a_from_x_y \<and>
   sel_a \<in> set (snd (trim (\<lambda>n. n) example_specificity example_sources example_is_superselector_of 2 False groups_a_a ! 1)) \<and>
   dropped_as_specified example_specificity example_sources example_is_superselector_of False groups_a_a 1 sel_a"
proof -
  have "trim (\<lambda>n. n) example_specificity example_sources example_is_superselector_of 2 False groups_ab_a =
      [(2, []), (3, [sel_a])]"
    by code_simp
  then have a: "sel_a_b \<notin> set (snd (trim (\<lambda>n. n) example_specificity example_sources example_is_superselector_of 2 False groups_ab_a ! 0))"
    by simp
  have b: "\<not> dropped_as_specified example_specificity example_sources example_is_superselector_of False groups_ab_a 0 sel_a_b"
    by code_simp
  have "trim (\<lambda>n. n) example_specificity example_sources example_is_superselector_of 2 True groups_asrc_a =
      [(2, [sel_a_from_x_y]), (3, [])]"
    by code_simp
  then have c: "sel_a_from_x_y \<in> set (snd (trim (\<lambda>n. n) example_specificity example_sources example_is_superselector_of 2 True groups_asrc_a ! 0))"
    by simp
  have d: "dropped_as_specified example_specificity example_sources example_is_superselector_of True groups_asrc_a 0 sel_a_from_x_y"
    by code_simp
  have "trim (\<lambda>n. n) example_specificity example_sources example_is_superselector_of 2 False groups_a_a =
      [(2, []), (3, [sel_a])]"
    by code_simp
  then have e: "sel_a \<in> set (snd (trim (\<lambda>n. n) example_specificity example_sources example_is_superselector_of 2 False groups_a_a ! 1))"
    by simp
  have f: "dropped_as_specified example_specificity example_sources example_is_superselector_of False groups_a_a 1 sel_a"
    by code_simp
  from a b c d e f show ?thesis by blast
qed

text \<open>
  C9 (amended). For every input of \<open>trim\<close> with at most 100 groups (whose collections
  are pairwise distinct and allocated before the call): let \<open>j\<close> be the last group that
  holds \<open>s\<close>. If in the other groups the only selector that can take \<open>s\<close> out is \<open>s\<close>
  itself, then the occurrence of \<open>s\<close> in group \<open>j\<close> is kept, whatever else group \<open>j\<close>
  holds. Identical selectors in distinct groups do not take each other out mutually: a
  group is not compared with itself, and an earlier group is compared as already trimmed.
\<close>

theorem trim_last_copy_kept:
  assumes len: "length seqses \<le> 100" and dist: "distinct (map fst seqses)"
    and fresh: "\<forall>g\<in>set seqses. fst g < alloc" and j: "j < length seqses"
    and s: "s \<in> set (snd (seqses ! j))"
    and last: "\<forall>k<length seqses. j < k \<longrightarrow> s \<notin> set (snd (seqses ! k))"
    and only_self: "\<forall>k<length seqses. k \<noteq> j \<longrightarrow> (\<forall>s2\<in>set (snd (seqses ! k)).
          trims specificity sources is_superselector_of isReplace
             (nodeToComplexSelector s2) (nodeToComplexSelector s) \<longrightarrow> s2 = s)"
  shows "s \<in> set (snd (trim nodeToComplexSelector specificity sources is_superselector_of alloc isReplace seqses ! j))"
proof -
  let ?T = "trim nodeToComplexSelector specificity sources is_superselector_of alloc isReplace seqses"
  let ?tr = "\<lambda>s2 s1. trims specificity sources is_superselector_of isReplace
             (nodeToComplexSelector s2) (nodeToComplexSelector s1)"
  have lenT: "length ?T = length seqses" by (rule trim_length)
  have rule: "\<And>i. i < length seqses \<Longrightarrow> snd (?T ! i) =
           filter (\<lambda>seq1. \<not> (\<exists>j<length seqses. j \<noteq> i \<and>
                    (\<exists>seq2\<in>set (snd (working_result ?T seqses i ! j)). ?tr seq2 seq1)))
             (snd (seqses ! i))"
    using trim_group_filter[OF len dist fresh] by blast
  have "\<not> (\<exists>k<length seqses. k \<noteq> j \<and> (\<exists>s2\<in>set (snd (working_result ?T seqses j ! k)). ?tr s2 s))"
  proof
    assume "\<exists>k<length seqses. k \<noteq> j \<and> (\<exists>s2\<in>set (snd (working_result ?T seqses j ! k)). ?tr s2 s)"
    then obtain k s2 where k: "k < length seqses" "k \<noteq> j"
      and s2: "s2 \<in> set (snd (working_result ?T seqses j ! k))" and tr: "?tr s2 s"
      by blast
    show False
    proof (cases "k < j")
      case True
      then have "working_result ?T seqses j ! k = ?T ! k"
        using j k lenT by (simp add: working_result_nth)
      then have in_T: "s2 \<in> set (snd (?T ! k))" using s2 by simp
      then have s2_in: "s2 \<in> set (snd (seqses ! k))"
        and keep: "\<not> (\<exists>j<length seqses. j \<noteq> k \<and>
                    (\<exists>seq2\<in>set (snd (working_result ?T seqses k ! j)). ?tr seq2 s2))"
        using rule[OF k(1)] by auto
      have "s2 = s" using only_self k(1) k(2) s2_in tr by blast
      moreover have "working_result ?T seqses k ! j = seqses ! j"
        using True j k lenT by (simp add: working_result_nth)
      ultimately show False using keep j True s tr by auto
    next
      case False
      then have kj: "j < k" using k(2) by simp
      then have "working_result ?T seqses j ! k = seqses ! k"
        using j k lenT by (simp add: working_result_nth)
      then have s2_in: "s2 \<in> set (snd (seqses ! k))" using s2 by simp
      then have "s2 = s" using only_self k(1) k(2) tr by blast
      then show False using last k(1) kj s2_in by blast
    qed
  qed
  then show ?thesis using rule[OF j] s by simp
qed

text \<open>
  Two groups that both hold \<^verbatim>\<open>.a\<close>: the second keeps it. And \<^verbatim>\<open>.a.b\<close> in a first group
  and next to \<^verbatim>\<open>.a\<close> in a second: the second keeps \<^verbatim>\<open>.a.b\<close>, although \<^verbatim>\<open>.a\<close> of the
  same group is a superselector of it.
\<close>

theorem trim_last_copy_kept_witness:
  "length groups_a_a \<le> 100 \<and> distinct (map fst groups_a_a) \<and> list_all (\<lambda>g. fst g < 2) groups_a_a \<and>
   1 < length groups_a_a \<and>
   sel_a \<in> set (snd (groups_a_a ! 0)) \<and> sel_a \<in> set (snd (groups_a_a ! 1)) \<and>
   sel_a \<in> set (snd (trim (\<lambda>n. n) example_specificity example_sources example_is_superselector_of 2 False groups_a_a ! 1)) \<and>
   sel_a_b \<in> set (snd (groups_ab_a_ab ! 0)) \<and> sel_a_b \<in> set (snd (groups_ab_a_ab ! 1)) \<and>
   sel_a \<in> set (snd (groups_ab_a_ab ! 1)) \<and>
   trims example_specificity example_sources example_is_superselector_of False sel_a sel_a_b \<and>
   sel_a_b \<in> set (snd (trim (\<lambda>n. n) example_specificity example_sources example_is_superselector_of 2 False groups_ab_a_ab ! 1))"
proof -
  have h1: "length groups_a_a \<le> 100" by (simp add: groups_a_a_def)
  have h2: "distinct (map fst groups_a_a)" by (simp add: groups_a_a_def)
  have h3: "\<forall>g\<in>set groups_a_a. fst g < 2" by (simp add: groups_a_a_def)
  have h4: "1 < length groups_a_a" by (simp add: groups_a_a_def)
  have h5: "sel_a \<in> set (snd (groups_a_a ! 1))" by (simp add: groups_a_a_def)
  have h6: "\<forall>k<length groups_a_a. 1 < k \<longrightarrow> sel_a \<notin> set (snd (groups_a_a ! k))"
    by (simp add: groups_a_a_def)
  have h7: "\<forall>k<length groups_a_a. k \<noteq> 1 \<longrightarrow> (\<forall>s2\<in>set (snd (groups_a_a ! k)).
      trims example_specificity example_sources example_is_superselector_of False s2 sel_a \<longrightarrow> s2 = sel_a)"
    by (simp add: groups_a_a_def less_Suc_eq)
  have a: "sel_a \<in> set (snd (trim (\<lambda>n. n) example_specificity example_sources example_is_superselector_of 2 False groups_a_a ! 1))"
    using trim_last_copy_kept[OF h1 h2 h3 h4 h5 h6, of example_specificity example_sources
        example_is_superselector_of False "\<lambda>n. n"] h7
    by simp
  have g1: "length groups_ab_a_ab \<le> 100" by (simp add: groups_ab_a_ab_def)
  have g2: "distinct (map fst groups_ab_a_ab)" by (simp add: groups_ab_a_ab_def)
  have g3: "\<forall>g\<in>set groups_ab_a_ab. fst g < 2" by (simp add: groups_ab_a_ab_def)
  have g4: "1 < length groups_ab_a_ab" by (simp add: groups_ab_a_ab_def)
  have g5: "sel_a_b \<in> set (snd (groups_ab_a_ab ! 1))" by (simp add: groups_ab_a_ab_def)
  have g6: "\<forall>k<length groups_ab_a_ab. 1 < k \<longrightarrow> sel_a_b \<notin> set (snd (groups_ab_a_ab ! k))"
    by (simp add: groups_ab_a_ab_def)
  have g7: "\<forall>k<length groups_ab_a_ab. k \<noteq> 1 \<longrightarrow> (\<forall>s2\<in>set (snd (groups_ab_a_ab ! k)).
      trims example_specificity example_sources example_is_superselector_of False s2 sel_a_b \<longrightarrow> s2 = sel_a_b)"
    by (simp add: groups_ab_a_ab_def less_Suc_eq)
  have b: "sel_a_b \<in> set (snd (trim (\<lambda>n. n) example_specificity example_sources example_is_superselector_of 2 False groups_ab_a_ab ! 1))"
    using trim_last_copy_kept[OF g1 g2 g3 g4 g5 g6, of example_specificity example_sources
        example_is_superselector_of False "\<lambda>n. n"] g7
    by simp
  have c: "trims example_specificity example_sources example_is_superselector_of False sel_a sel_a_b"
    by code_simp
  show ?thesis using h1 h2 h4 h5 a b c by (simp add: groups_a_a_def groups_ab_a_ab_def)
qed

text \<open>
  The claim as stated fails: \<^verbatim>\<open>.a.b\<close> stands in the first and in the second group and
  \<^verbatim>\<open>.a\<close> in the third; both copies of \<^verbatim>\<open>.a.b\<close> are dropped, the first on account of
  the second group, the second on account of \<^verbatim>\<open>.a\<close>.
\<close>

theorem trim_identical_counterexample:
  "sel_a_b \<in> set (snd (groups_ab_ab_a ! 0)) \<and> sel_a_b \<in> set (snd (groups_ab_ab_a ! 1)) \<and>
   sel_a_b \<notin> set (snd (trim (\<lambda>n. n) example_specificity example_sources example_is_superselector_of 3 False groups_ab_ab_a ! 0)) \<and>
   sel_a_b \<notin> set (snd (trim (\<lambda>n. n) example_specificity example_sources example_is_superselector_of 3 False groups_ab_ab_a ! 1))"
proof -
  have "trim (\<lambda>n. n) example_specificity example_sources example_is_superselector_of 3 False groups_ab_ab_a =
        [(3, []), (4, []), (5, [sel_a])]"
    by code_simp
  then show ?thesis by (simp add: groups_ab_ab_a_def)
qed

subsection \<open>chunks\<close>

lemma chunk1_loop_never:
  "(\<forall>s. suffix s seq1 \<longrightarrow> s \<noteq> [] \<longrightarrow> \<not> chunker s) \<Longrightarrow> chunk1_loop chunker seq1 acc = (acc @ seq1, [])"
proof (induction seq1 arbitrary: acc)
  case Nil
  then show ?case by simp
next
  case (Cons x xs)
  have "\<not> chunker (x # xs)" using Cons.prems by simp
  moreover have "\<forall>s. suffix s xs \<longrightarrow> s \<noteq> [] \<longrightarrow> \<not> chunker s"
    using Cons.prems by (simp add: suffix_Cons)
  ultimately show ?case using Cons.IH by simp
qed

lemma chunk2_loop_undefined:
  "(chunk2_loop chunker seq2 acc = Inl Undefined_Behaviour) = (\<forall>s. suffix s seq2 \<longrightarrow> \<not> chunker s)"
proof (induction seq2 arbitrary: acc)
  case Nil
  then show ?case by simp
next
  case (Cons x xs)
  show ?case
  proof (cases "chunker (x # xs)")
    case True
    then show ?thesis by auto
  next
    case False
    then show ?thesis using Cons.IH by (auto simp: suffix_Cons)
  qed
qed

lemma chunk2_loop_Inl: "chunk2_loop chunker seq2 acc = Inl e \<Longrightarrow> e = Undefined_Behaviour"
  by (induction seq2 arbitrary: acc) (auto split: if_splits)

lemma chunks_undefined_iff:
  "(chunks chunker seq1 seq2 = Inl Undefined_Behaviour) = (\<forall>s. suffix s seq2 \<longrightarrow> \<not> chunker s)"
proof -
  have "(chunks chunker seq1 seq2 = Inl Undefined_Behaviour) = (chunk2_loop chunker seq2 [] = Inl Undefined_Behaviour)"
    by (auto simp: chunks_def split: prod.splits sum.splits)
  then show ?thesis by (simp add: chunk2_loop_undefined)
qed

lemma chunks_returns_iff:
  "(\<exists>r. chunks chunker seq1 seq2 = Inr r) = (\<exists>s. suffix s seq2 \<and> chunker s)"
proof -
  have "(\<exists>r. chunks chunker seq1 seq2 = Inr r) = (chunks chunker seq1 seq2 \<noteq> Inl Undefined_Behaviour)"
    by (cases "chunks chunker seq1 seq2")
       (auto simp: chunks_def split: prod.splits sum.splits dest: chunk2_loop_Inl)
  then show ?thesis by (simp add: chunks_undefined_iff)
qed

text \<open>
  C10. In \<open>chunks\<close>, the loop that collects \<open>chunk1\<close> stops when \<open>seq1\<close> is used up,
  also when the chunker holds on no non-empty suffix of \<open>seq1\<close>: it returns all of
  \<open>seq1\<close> as the chunk. The loop that collects \<open>chunk2\<close> has no such guard: \<open>chunks\<close>
  returns a result exactly when the chunker holds on some suffix of \<open>seq2\<close> (the empty
  one included), and takes the front of an empty \<open>seq2\<close> exactly when it holds on none.
  A \<open>ParentSuperselectorChunker\<close> is false on the empty sequence, so with it and an
  empty \<open>seq2\<close> the access is reached.
\<close>

theorem chunks_front_of_empty_seq2:
  "((\<forall>s. suffix s seq1 \<longrightarrow> s \<noteq> [] \<longrightarrow> \<not> chunker s) \<longrightarrow> chunk1_loop chunker seq1 [] = (seq1, [])) \<and>
   ((\<exists>r. chunks chunker seq1 seq2 = Inr r) = (\<exists>s. suffix s seq2 \<and> chunker s)) \<and>
   ((chunks chunker seq1 seq2 = Inl Undefined_Behaviour) = (\<forall>s. suffix s seq2 \<longrightarrow> \<not> chunker s)) \<and>
   \<not> ParentSuperselectorChunker parent_superselector mLcs_front [] \<and>
   chunks (ParentSuperselectorChunker parent_superselector mLcs_front) seq1' [] = Inl Undefined_Behaviour"
proof -
  have a: "(\<forall>s. suffix s seq1 \<longrightarrow> s \<noteq> [] \<longrightarrow> \<not> chunker s) \<longrightarrow> chunk1_loop chunker seq1 [] = (seq1, [])"
    using chunk1_loop_never[of seq1 chunker "[]"] by simp
  have d: "\<not> ParentSuperselectorChunker parent_superselector mLcs_front []"
    by (simp add: ParentSuperselectorChunker_def)
  have e: "chunks (ParentSuperselectorChunker parent_superselector mLcs_front) seq1' [] = Inl Undefined_Behaviour"
    using d by (simp add: chunks_undefined_iff)
  show ?thesis using a chunks_returns_iff chunks_undefined_iff d e by blast
qed

text \<open>
  The chunker of the common element \<^verbatim>\<open>.a\<close> holds on no suffix of the sequence with
  the one group \<^verbatim>\<open>.x.y\<close>: as \<open>seq1\<close> the sequence is returned whole, as \<open>seq2\<close> its
  front is taken when it is empty. With the common element \<^verbatim>\<open>.a.b\<close> and \<open>seq2\<close> the
  group \<^verbatim>\<open>.a\<close>, \<open>chunks\<close> returns.
\<close>

theorem chunks_front_of_empty_seq2_witness:
  "chunk1_loop (ParentSuperselectorChunker example_parent_superselector (group_of sel_a)) [group_of sel_x_y] [] =
     ([group_of sel_x_y], []) \<and>
   chunks (ParentSuperselectorChunker example_parent_superselector (group_of sel_a))
     [group_of sel_x_y] [group_of sel_x_y] = Inl Undefined_Behaviour \<and>
   chunks (ParentSuperselectorChunker example_parent_superselector (group_of sel_a)) [] [] =
     Inl Undefined_Behaviour \<and>
   chunks (ParentSuperselectorChunker example_parent_superselector (group_of sel_a_b))
     [group_of sel_x_y] [group_of sel_a] =
     Inr (Collection_Node [Collection_Node [group_of sel_x_y]], [], [group_of sel_a])"
proof -
  let ?C = "ParentSuperselectorChunker example_parent_superselector (group_of sel_a)"
  have no: "\<not> ?C [group_of sel_x_y]"
    by (simp add: ParentSuperselectorChunker_def example_parent_superselector_def group_of_def
        example_is_superselector_of_def sel_a_def sel_x_y_def class_compound_def)
  have h: "\<forall>s. suffix s [group_of sel_x_y] \<longrightarrow> s \<noteq> [] \<longrightarrow> \<not> ?C s"
    using no by (auto simp: suffix_Cons)
  have n: "\<forall>s. suffix s [group_of sel_x_y] \<longrightarrow> \<not> ?C s"
    using no by (auto simp: suffix_Cons ParentSuperselectorChunker_def)
  note t = chunks_front_of_empty_seq2[of "[group_of sel_x_y]" ?C "[group_of sel_x_y]"
      example_parent_superselector "group_of sel_a" "[]"]
  from t h have 1: "chunk1_loop ?C [group_of sel_x_y] [] = ([group_of sel_x_y], [])" by blast
  from t n have 2: "chunks ?C [group_of sel_x_y] [group_of sel_x_y] = Inl Undefined_Behaviour" by blast
  from t have 3: "chunks ?C [] [] = Inl Undefined_Behaviour" by blast
  have 4: "chunks (ParentSuperselectorChunker example_parent_superselector (group_of sel_a_b))
     [group_of sel_x_y] [group_of sel_a] =
     Inr (Collection_Node [Collection_Node [group_of sel_x_y]], [], [group_of sel_a])"
    by (simp add: chunks_def ParentSuperselectorChunker_def example_parent_superselector_def group_of_def
        example_is_superselector_of_def sel_a_def sel_a_b_def sel_x_y_def class_compound_def)
  from 1 2 3 4 show ?thesis by blast
qed

subsection \<open>The final check of the tree walker\<close>

lemma check_everything_extended_find:
  "check_everything_extended first cts pts vals =
     (case find unsatisfied_extend vals of
        None \<Rightarrow> Inr ()
      | Some it \<Rightarrow>
          (case (case fst it of None \<Rightarrow> None | Some extender \<Rightarrow> first extender, snd it) of
             (Some s, Some e) \<Rightarrow> Inl (Fatal (failed_to_extend_message (cts s) (pts e)))
           | _ \<Rightarrow> Inl Undefined_Behaviour))"
  by (induction vals) (auto simp: unsatisfied_extend_def Let_def split: option.splits)

text \<open>
  C7. When the statements of the root block have been walked without an error, the
  visitor goes through the entries of the subset map in the order of \<^verbatim>\<open>values()\<close>. If
  every extendee is marked extended or flagged optional, no error is raised. Otherwise a
  fatal error is raised that names the unsatisfied extend; the throw ends the loop, so it
  is the first such entry: with X the text of the first node of its extender and Y the
  text of its extendee, the message is \<^verbatim>\<open>"X" failed to @extend "Y".\<close>, a line break,
  \<^verbatim>\<open>The selector "Y" was not found.\<close>, a line break,
  \<^verbatim>\<open>Use "@extend Y !optional" if the extend should be able to fail.\<close> (A null pointer
  in that entry is dereferenced instead.) In a block that is not the root, no check is
  made.
\<close>

theorem unsatisfied_extend_is_fatal:
  assumes "Extend_statements first complex_to_string compound_to_string extendObject subset_map_values
             stms subset_map = Inr subset_map'"
  shows "Extend_Block first complex_to_string compound_to_string extendObject subset_map_values
           (Block stms True) subset_map =
         (case find unsatisfied_extend (subset_map_values subset_map') of
            None \<Rightarrow> Inr subset_map'
          | Some it \<Rightarrow>
              (case (case fst it of None \<Rightarrow> None | Some extender \<Rightarrow> first extender, snd it) of
                 (Some s, Some e) \<Rightarrow>
                    Inl (Fatal (failed_to_extend_message (complex_to_string s) (compound_to_string e)))
               | _ \<Rightarrow> Inl Undefined_Behaviour))
       \<and> Extend_Block first complex_to_string compound_to_string extendObject subset_map_values
           (Block stms False) subset_map = Inr subset_map'"
  using assms
  by (simp add: check_everything_extended_find split: option.splits prod.splits)

text \<open>
  The ruleset of the example tree consumes \<^verbatim>\<open>.a\<close>; the extend of \<^verbatim>\<open>.c\<close> by
  \<^verbatim>\<open>.a.b\<close> is left unsatisfied and is reported.
\<close>

theorem unsatisfied_extend_is_fatal_witness:
  "Extend_statements Some example_complex_to_string example_compound_to_string example_extendObject (\<lambda>m. m)
     (block_statements example_tree) [(Some sel_x_y, Some extendee_a), (Some sel_a_b, Some extendee_c)] =
     Inr [(Some sel_x_y, Some (Compound_Selector [Class_Selector ''a''] True False None [])),
          (Some sel_a_b, Some extendee_c)] \<and>
   Extend_Block Some example_complex_to_string example_compound_to_string example_extendObject (\<lambda>m. m)
     example_tree [(Some sel_x_y, Some extendee_a), (Some sel_a_b, Some extendee_c)] =
     Inl (Fatal (failed_to_extend_message ''.a.b'' ''.c''))"
proof -
  have h: "Extend_statements Some example_complex_to_string example_compound_to_string example_extendObject (\<lambda>m. m)
     (block_statements example_tree) [(Some sel_x_y, Some extendee_a), (Some sel_a_b, Some extendee_c)] =
     Inr [(Some sel_x_y, Some (Compound_Selector [Class_Selector ''a''] True False None [])),
          (Some sel_a_b, Some extendee_c)]"
    by (simp add: example_tree_def example_extendObject_def extendee_a_def extendee_c_def)
  have t: "example_tree = Block (block_statements example_tree) True"
    by (simp add: example_tree_def)
  have "Extend_Block Some example_complex_to_string example_compound_to_string example_extendObject (\<lambda>m. m)
     (Block (block_statements example_tree) True)
     [(Some sel_x_y, Some extendee_a), (Some sel_a_b, Some extendee_c)] =
     Inl (Fatal (failed_to_extend_message ''.a.b'' ''.c''))"
    using unsatisfied_extend_is_fatal[OF h]
    by (simp add: unsatisfied_extend_def extendee_c_def sel_a_b_def class_compound_def
        example_complex_to_string_def example_compound_to_string_def)
  then show ?thesis using h t by simp
qed

text \<open>With two unsatisfied entries the error that is raised names the first.\<close>

lemma unsatisfied_extend_names_first:
  "unsatisfied_extend (Some sel_x_y, Some extendee_a) \<and>
   unsatisfied_extend (Some sel_a_b, Some extendee_c) \<and>
   Extend_Block Some example_complex_to_string example_compound_to_string example_extendObject (\<lambda>m. m)
     (Block [] True) [(Some sel_x_y, Some extendee_a), (Some sel_a_b, Some extendee_c)] =
     Inl (Fatal (failed_to_extend_message ''.x.y'' ''.a'')) \<and>
   Extend_Block Some example_complex_to_string example_compound_to_string example_extendObject (\<lambda>m. m)
     (Block [] True) [(Some sel_x_y, Some extendee_a), (Some sel_a_b, Some extendee_c)] \<noteq>
     Inl (Fatal (failed_to_extend_message ''.a.b'' ''.c''))"
  by (simp add: unsatisfied_extend_def extendee_a_def extendee_c_def sel_x_y_def sel_a_b_def class_compound_def
        example_complex_to_string_def example_compound_to_string_def failed_to_extend_message_def
        double_quote_def newline_def)

subsection \<open>lcs with the default comparator\<close>

text \<open>
  The length of a longest common subsequence of the first \<open>i\<close> elements of \<open>x\<close> and
  the first \<open>j\<close> elements of \<open>y\<close>, by the recurrence the table is filled with.
\<close>

fun lcs_length :: "('a \<Rightarrow> 'a \<Rightarrow> 'a option) \<Rightarrow> 'a list \<Rightarrow> 'a list \<Rightarrow> nat \<Rightarrow> nat \<Rightarrow> nat" where
  "lcs_length comparator x y 0 j = 0"
| "lcs_length comparator x y (Suc i) 0 = 0"
| "lcs_length comparator x y (Suc i) (Suc j) =
     (case comparator (x ! i) (y ! j) of
        Some out \<Rightarrow> lcs_length comparator x y i j + 1
      | None \<Rightarrow> max (lcs_length comparator x y (Suc i) j) (lcs_length comparator x y i (Suc j)))"

lemma lcs_length_0 [simp]: "lcs_length comparator x y i 0 = 0"
  by (cases i) simp_all

lemma fold_upt_invariant:
  assumes "P a s" and "\<And>k s. a \<le> k \<Longrightarrow> k < b \<Longrightarrow> P k s \<Longrightarrow> P (Suc k) (f k s)" and "a \<le> b"
  shows "P b (fold f [a..<b] s)"
  using assms(3,2)
proof (induction b rule: dec_induct)
  case base
  then show ?case using assms(1) by simp
next
  case (step n)
  have "P n (fold f [a..<n] s)" using step by simp
  then have "P (Suc n) (f n (fold f [a..<n] s))" using step by simp
  then show ?case using step.hyps by simp
qed

text \<open>
  The invariant of the two loops of \<open>lcs_table\<close>: the rows before \<open>i\<close> and the cells
  of row \<open>i\<close> before column \<open>j\<close> hold their final values.
\<close>

definition table_ok ::
  "('a \<Rightarrow> 'a \<Rightarrow> 'a option) \<Rightarrow> 'a list \<Rightarrow> 'a list \<Rightarrow> nat \<Rightarrow> nat \<Rightarrow> nat list list \<Rightarrow> bool" where
  "table_ok comparator x y i j c =
     (length c = Suc (length x) \<and> (\<forall>r\<le>length x. length (c ! r) = Suc (length y)) \<and>
      (\<forall>r\<le>length x. c ! r ! 0 = 0) \<and>
      (\<forall>r q. (r < i \<and> q \<le> length y) \<or> (r = i \<and> q < j) \<longrightarrow> r \<le> length x \<longrightarrow>
          c ! r ! q = lcs_length comparator x y r q))"

lemma table_ok_init:
  "table_ok comparator x y 1 1 (replicate (Suc (length x)) (replicate (Suc (length y)) 0))"
proof -
  let ?c = "replicate (Suc (length x)) (replicate (Suc (length y)) (0::nat))"
  have cell: "r \<le> length x \<Longrightarrow> q \<le> length y \<Longrightarrow> ?c ! r ! q = 0" for r q
    by (simp del: replicate_Suc add: le_imp_less_Suc)
  have row: "r \<le> length x \<Longrightarrow> length (?c ! r) = Suc (length y)" for r
    by (simp del: replicate_Suc add: le_imp_less_Suc)
  show ?thesis
    unfolding table_ok_def
  proof (intro conjI allI impI)
    show "length ?c = Suc (length x)" by simp
  next
    fix r assume "r \<le> length x" then show "length (?c ! r) = Suc (length y)" by (rule row)
  next
    fix r assume "r \<le> length x" then show "?c ! r ! 0 = 0" using cell[of r 0] by simp
  next
    fix r q assume h: "r < 1 \<and> q \<le> length y \<or> r = 1 \<and> q < 1" and r: "r \<le> length x"
    from h have "q \<le> length y" by auto
    then have "?c ! r ! q = 0" using cell r by blast
    moreover from h have "lcs_length comparator x y r q = 0" by auto
    ultimately show "?c ! r ! q = lcs_length comparator x y r q" by simp
  qed
qed

lemma table_ok_next_row:
  assumes ok: "table_ok comparator x y i (Suc (length y)) c"
  shows "table_ok comparator x y (Suc i) 1 c"
proof -
  have "c ! r ! q = lcs_length comparator x y r q"
    if h: "r < Suc i \<and> q \<le> length y \<or> r = Suc i \<and> q < 1" and r: "r \<le> length x" for r q
  proof (cases "r = Suc i")
    case True
    then have "q = 0" using h by auto
    then show ?thesis using ok r unfolding table_ok_def by simp
  next
    case False
    then have "r < i \<and> q \<le> length y \<or> r = i \<and> q < Suc (length y)" using h by auto
    then show ?thesis using ok r unfolding table_ok_def by blast
  qed
  then show ?thesis using ok unfolding table_ok_def by blast
qed

lemma table_ok_cell:
  assumes ok: "table_ok comparator x y i j c" and i: "1 \<le> i" "i \<le> length x" and j: "1 \<le> j" "j \<le> length y"
  shows "table_ok comparator x y i (Suc j) (c[i := (c ! i)[j := lcs_cell comparator x y c i j]])"
proof -
  obtain i' j' where ij: "i = Suc i'" "j = Suc j'" using i j by (cases i; cases j) auto
  have cell: "lcs_cell comparator x y c i j = lcs_length comparator x y i j"
  proof -
    have a: "c ! i' ! j' = lcs_length comparator x y i' j'"
      and b: "c ! i ! j' = lcs_length comparator x y i j'"
      and d: "c ! i' ! j = lcs_length comparator x y i' j"
      using ok i j ij unfolding table_ok_def by auto
    show ?thesis using a b d by (simp add: lcs_cell_def ij split: option.splits)
  qed
  show ?thesis
    unfolding table_ok_def
  proof (intro conjI allI impI)
    show "length (c[i := (c ! i)[j := lcs_cell comparator x y c i j]]) = Suc (length x)"
      using ok by (simp add: table_ok_def)
  next
    fix r assume "r \<le> length x"
    then show "length (c[i := (c ! i)[j := lcs_cell comparator x y c i j]] ! r) = Suc (length y)"
      using ok i unfolding table_ok_def by (cases "r = i") auto
  next
    fix r assume "r \<le> length x"
    then show "c[i := (c ! i)[j := lcs_cell comparator x y c i j]] ! r ! 0 = 0"
      using ok i j unfolding table_ok_def by (cases "r = i") auto
  next
    fix r q
    assume rq: "r < i \<and> q \<le> length y \<or> r = i \<and> q < Suc j" and r: "r \<le> length x"
    show "c[i := (c ! i)[j := lcs_cell comparator x y c i j]] ! r ! q = lcs_length comparator x y r q"
    proof (cases "r = i")
      case True
      have li: "i < length c" "j < length (c ! i)" using ok i j unfolding table_ok_def by auto
      show ?thesis
      proof (cases "q = j")
        case True
        then show ?thesis using \<open>r = i\<close> li cell by simp
      next
        case False
        then have "q < j" using rq \<open>r = i\<close> by auto
        then have "c ! i ! q = lcs_length comparator x y i q"
          using ok i unfolding table_ok_def by auto
        then show ?thesis using \<open>r = i\<close> li False by simp
      qed
    next
      case False
      then have "r < i \<and> q \<le> length y" using rq by auto
      then have "c ! r ! q = lcs_length comparator x y r q"
        using ok r unfolding table_ok_def by auto
      then show ?thesis using False by simp
    qed
  qed
qed

lemma table_ok_row:
  assumes ok: "table_ok comparator x y i 1 c" and i: "1 \<le> i" "i \<le> length x"
  shows "table_ok comparator x y (Suc i) 1
           (fold (\<lambda>j c. c[i := (c ! i)[j := lcs_cell comparator x y c i j]]) [1..<Suc (length y)] c)"
proof -
  have "table_ok comparator x y i (Suc (length y))
           (fold (\<lambda>j c. c[i := (c ! i)[j := lcs_cell comparator x y c i j]]) [1..<Suc (length y)] c)"
  proof (rule fold_upt_invariant[where P = "\<lambda>j c. table_ok comparator x y i j c" and a = 1
          and b = "Suc (length y)" and f = "\<lambda>j c. c[i := (c ! i)[j := lcs_cell comparator x y c i j]]"])
    show "table_ok comparator x y i 1 c" by (rule ok)
  next
    fix k s assume "1 \<le> k" "k < Suc (length y)" "table_ok comparator x y i k s"
    then show "table_ok comparator x y i (Suc k) (s[i := (s ! i)[k := lcs_cell comparator x y s i k]])"
      using i by (intro table_ok_cell) auto
  next
    show "1 \<le> Suc (length y)" by simp
  qed
  then show ?thesis by (rule table_ok_next_row)
qed

lemma lcs_table_ok:
  "table_ok comparator x y (Suc (length x)) 1 (lcs_table comparator x y)"
  unfolding lcs_table_def
proof (rule fold_upt_invariant[where P = "\<lambda>i c. table_ok comparator x y i 1 c" and a = 1
          and b = "Suc (length x)"])
  show "table_ok comparator x y 1 1 (replicate (Suc (length x)) (replicate (Suc (length y)) 0))"
    by (rule table_ok_init)
next
  fix k s assume "1 \<le> k" "k < Suc (length x)" "table_ok comparator x y k 1 s"
  then show "table_ok comparator x y (Suc k) 1
       (fold (\<lambda>j c. c[k := (c ! k)[j := lcs_cell comparator x y c k j]]) [1..<Suc (length y)] s)"
    by (intro table_ok_row) auto
next
  show "1 \<le> Suc (length x)" by simp
qed

lemma lcs_table_nth:
  "i \<le> length x \<Longrightarrow> j \<le> length y \<Longrightarrow> lcs_table comparator x y ! i ! j = lcs_length comparator x y i j"
  using lcs_table_ok[of comparator x y] unfolding table_ok_def by auto


lemma DefaultLcsComparator_Some: "(DefaultLcsComparator a b = Some c) = (a = b \<and> c = a)"
  by (auto simp: DefaultLcsComparator_def)

lemma DefaultLcsComparator_None: "(DefaultLcsComparator a b = None) = (a \<noteq> b)"
  by (auto simp: DefaultLcsComparator_def)

lemma lcs_backtrace_default:
  assumes "i \<le> length x" "j \<le> length y"
  shows "subseq (lcs_backtrace (lcs_table DefaultLcsComparator x y) DefaultLcsComparator x y i j) (take i x) \<and>
         subseq (lcs_backtrace (lcs_table DefaultLcsComparator x y) DefaultLcsComparator x y i j) (take j y) \<and>
         length (lcs_backtrace (lcs_table DefaultLcsComparator x y) DefaultLcsComparator x y i j) =
           lcs_length DefaultLcsComparator x y i j"
  using assms
proof (induction "i + j" arbitrary: i j rule: less_induct)
  case less
  let ?T = "lcs_table DefaultLcsComparator x y"
  let ?bt = "lcs_backtrace ?T DefaultLcsComparator x y"
  let ?L = "lcs_length DefaultLcsComparator x y"
  show ?case
  proof (cases i)
    case 0
    then show ?thesis by simp
  next
    case (Suc i')
    note i = Suc
    show ?thesis
    proof (cases j)
      case 0
      then show ?thesis using i by simp
    next
      case (Suc j')
      note j = Suc
      have i'x: "i' < length x" and j'y: "j' < length y" using less.prems i j by auto
      have tx: "take i x = take i' x @ [x ! i']" using i i'x by (simp add: take_Suc_conv_app_nth)
      have ty: "take j y = take j' y @ [y ! j']" using j j'y by (simp add: take_Suc_conv_app_nth)
      show ?thesis
      proof (cases "x ! i' = y ! j'")
        case True
        have IH: "subseq (?bt i' j') (take i' x) \<and> subseq (?bt i' j') (take j' y) \<and> length (?bt i' j') = ?L i' j'"
          using less.hyps[of i' j'] i j i'x j'y by simp
        have bt: "?bt i j = ?bt i' j' @ [x ! i']" using True i j by (simp add: DefaultLcsComparator_def)
        have L: "?L i j = ?L i' j' + 1" using True i j by (simp add: DefaultLcsComparator_def)
        show ?thesis unfolding bt L tx ty using IH True by simp
      next
        case False
        have T1: "?T ! i ! j' = ?L i j'" using less.prems j by (simp add: lcs_table_nth)
        have T2: "?T ! i' ! j = ?L i' j" using less.prems i by (simp add: lcs_table_nth)
        have L: "?L i j = max (?L i j') (?L i' j)" using False i j by (simp add: DefaultLcsComparator_def)
        show ?thesis
        proof (cases "?L i j' > ?L i' j")
          case True
          have IH: "subseq (?bt i j') (take i x) \<and> subseq (?bt i j') (take j' y) \<and> length (?bt i j') = ?L i j'"
            using less.hyps[of i j'] less.prems i j by simp
          have bt: "?bt i j = ?bt i j'" using False True T1 T2 i j by (simp add: DefaultLcsComparator_def)
          show ?thesis unfolding bt L using IH True by (simp add: ty subseq_rev_drop_many)
        next
          case nogt: False
          have IH: "subseq (?bt i' j) (take i' x) \<and> subseq (?bt i' j) (take j y) \<and> length (?bt i' j) = ?L i' j"
            using less.hyps[of i' j] less.prems i j by simp
          have bt: "?bt i j = ?bt i' j" using False nogt T1 T2 i j by (simp add: DefaultLcsComparator_def)
          show ?thesis unfolding bt L using IH nogt by (simp add: tx subseq_rev_drop_many)
        qed
      qed
    qed
  qed
qed

lemma subseq_snoc_cases:
  assumes "subseq zs (xs @ [a])"
  shows "subseq zs xs \<or> (\<exists>zs'. zs = zs' @ [a] \<and> subseq zs' xs)"
proof -
  from assms obtain z1 z2 where z: "zs = z1 @ z2" "subseq z1 xs" "subseq z2 [a]"
    by (auto simp: subseq_append_iff)
  from z(3) have "z2 = [] \<or> z2 = [a]"
    by (cases z2) (auto split: if_splits)
  then show ?thesis using z by auto
qed

lemma lcs_length_optimal:
  assumes "i \<le> length x" "j \<le> length y" "subseq zs (take i x)" "subseq zs (take j y)"
  shows "length zs \<le> lcs_length DefaultLcsComparator x y i j"
  using assms
proof (induction "i + j" arbitrary: i j zs rule: less_induct)
  case less
  let ?L = "lcs_length DefaultLcsComparator x y"
  show ?case
  proof (cases i)
    case 0
    then show ?thesis using less.prems by simp
  next
    case (Suc i')
    note i = Suc
    show ?thesis
    proof (cases j)
      case 0
      then show ?thesis using less.prems by simp
    next
      case (Suc j')
      note j = Suc
      have i'x: "i' < length x" and j'y: "j' < length y" using less.prems i j by auto
      have tx: "take i x = take i' x @ [x ! i']" using i i'x by (simp add: take_Suc_conv_app_nth)
      have ty: "take j y = take j' y @ [y ! j']" using j j'y by (simp add: take_Suc_conv_app_nth)
      from less.prems(3) have cx: "subseq zs (take i' x) \<or> (\<exists>zs'. zs = zs' @ [x ! i'] \<and> subseq zs' (take i' x))"
        unfolding tx by (rule subseq_snoc_cases)
      from less.prems(4) have cy: "subseq zs (take j' y) \<or> (\<exists>zs'. zs = zs' @ [y ! j'] \<and> subseq zs' (take j' y))"
        unfolding ty by (rule subseq_snoc_cases)
      have low_x: "subseq zs (take i' x) \<Longrightarrow> length zs \<le> ?L i' j"
        using less.hyps[of i' j zs] less.prems i i'x by simp
      have low_y: "subseq zs (take j' y) \<Longrightarrow> length zs \<le> ?L i j'"
        using less.hyps[of i j' zs] less.prems j j'y by simp
      show ?thesis
      proof (cases "x ! i' = y ! j'")
        case True
        have L: "?L i j = ?L i' j' + 1" using True i j by (simp add: DefaultLcsComparator_def)
        have drop: "\<exists>zs'. subseq zs' (take i' x) \<and> subseq zs' (take j' y) \<and> length zs \<le> length zs' + 1"
        proof (cases "subseq zs (take i' x)")
          case sx: True
          show ?thesis
          proof (cases "subseq zs (take j' y)")
            case True
            then show ?thesis using sx by auto
          next
            case False
            then obtain zs' where z: "zs = zs' @ [y ! j']" "subseq zs' (take j' y)" using cy by auto
            have "subseq zs' zs" using z(1) by (simp add: prefix_imp_subseq)
            then have "subseq zs' (take i' x)" using sx by (rule subseq_order.order_trans)
            then show ?thesis using z by auto
          qed
        next
          case False
          then obtain zs' where z: "zs = zs' @ [x ! i']" "subseq zs' (take i' x)" using cx by auto
          show ?thesis
          proof (cases "subseq zs (take j' y)")
            case True
            have "subseq zs' zs" using z(1) by (simp add: prefix_imp_subseq)
            then have "subseq zs' (take j' y)" using True by (rule subseq_order.order_trans)
            then show ?thesis using z by auto
          next
            case False
            then obtain zs'' where z': "zs = zs'' @ [y ! j']" "subseq zs'' (take j' y)" using cy by auto
            then have "zs'' = zs'" using z(1) by simp
            then show ?thesis using z z' by auto
          qed
        qed
        then obtain zs' where z: "subseq zs' (take i' x)" "subseq zs' (take j' y)" "length zs \<le> length zs' + 1"
          by blast
        have "length zs' \<le> ?L i' j'"
          using less.hyps[of i' j' zs'] z i j i'x j'y by simp
        then show ?thesis using z(3) L by simp
      next
        case False
        have L: "?L i j = max (?L i j') (?L i' j)" using False i j by (simp add: DefaultLcsComparator_def)
        have "subseq zs (take i' x) \<or> subseq zs (take j' y)"
          using cx cy False by auto
        then show ?thesis using low_x low_y L by auto
      qed
    qed
  qed
qed

lemma lcs_default_subseq:
  "subseq (lcs DefaultLcsComparator x y) x \<and> subseq (lcs DefaultLcsComparator x y) y"
  using lcs_backtrace_default[of "length x" x "length y" y] by (simp add: lcs_def)

lemma lcs_default_left: "(lcs DefaultLcsComparator x y = x) = subseq x y"
proof
  assume "lcs DefaultLcsComparator x y = x"
  then show "subseq x y" using lcs_default_subseq[of x y] by simp
next
  assume s: "subseq x y"
  have "length x \<le> lcs_length DefaultLcsComparator x y (length x) (length y)"
    using lcs_length_optimal[of "length x" x "length y" y x] s by simp
  moreover have "length (lcs DefaultLcsComparator x y) = lcs_length DefaultLcsComparator x y (length x) (length y)"
    using lcs_backtrace_default[of "length x" x "length y" y] by (simp add: lcs_def)
  moreover have "length (lcs DefaultLcsComparator x y) \<le> length x"
    using lcs_default_subseq[of x y] list_emb_length by blast
  ultimately have "length (lcs DefaultLcsComparator x y) = length x" by simp
  then show "lcs DefaultLcsComparator x y = x"
    using lcs_default_subseq[of x y] by (simp add: subseq_same_length)
qed

lemma lcs_default_right: "(lcs DefaultLcsComparator x y = y) = subseq y x"
proof
  assume "lcs DefaultLcsComparator x y = y"
  then show "subseq y x" using lcs_default_subseq[of x y] by simp
next
  assume s: "subseq y x"
  have "length y \<le> lcs_length DefaultLcsComparator x y (length x) (length y)"
    using lcs_length_optimal[of "length x" x "length y" y y] s by simp
  moreover have "length (lcs DefaultLcsComparator x y) = lcs_length DefaultLcsComparator x y (length x) (length y)"
    using lcs_backtrace_default[of "length x" x "length y" y] by (simp add: lcs_def)
  moreover have "length (lcs DefaultLcsComparator x y) \<le> length y"
    using lcs_default_subseq[of x y] list_emb_length by blast
  ultimately have "length (lcs DefaultLcsComparator x y) = length y" by simp
  then show "lcs DefaultLcsComparator x y = y"
    using lcs_default_subseq[of x y] by (simp add: subseq_same_length)
qed

subsection \<open>mergeInitialOps\<close>

lemma getAndRemoveInitialOps_eq:
  "getAndRemoveInitialOps seq ops = (dropWhile isCombinator seq, ops @ takeWhile isCombinator seq)"
  by (induction seq arbitrary: ops) auto

text \<open>
  C5. Let \<open>ops1\<close> and \<open>ops2\<close> be the leading combinators of the two sequences.
  \<open>mergeInitialOps\<close> takes them off both sequences and returns nil unless the longest
  common subsequence that \<open>lcs\<close> computes equals \<open>ops1\<close> or \<open>ops2\<close>; that subsequence
  equals \<open>ops1\<close> exactly when \<open>ops1\<close> is a subsequence of \<open>ops2\<close>, and \<open>ops2\<close> exactly
  when \<open>ops2\<close> is a subsequence of \<open>ops1\<close>. Otherwise it returns \<open>ops1\<close> when it is
  longer than \<open>ops2\<close> and \<open>ops2\<close> when not: the one of which the other is a
  subsequence.
\<close>

theorem mergeInitialOps_subsequence:
  "mergeInitialOps seq1 seq2 =
     (if lcs DefaultLcsComparator (takeWhile isCombinator seq1) (takeWhile isCombinator seq2) = takeWhile isCombinator seq1 \<or>
         lcs DefaultLcsComparator (takeWhile isCombinator seq1) (takeWhile isCombinator seq2) = takeWhile isCombinator seq2
      then Collection_Node
             (if length (takeWhile isCombinator seq1) > length (takeWhile isCombinator seq2)
              then takeWhile isCombinator seq1 else takeWhile isCombinator seq2)
      else Nil_Node,
      dropWhile isCombinator seq1, dropWhile isCombinator seq2) \<and>
   (lcs DefaultLcsComparator (takeWhile isCombinator seq1) (takeWhile isCombinator seq2) = takeWhile isCombinator seq1) =
      subseq (takeWhile isCombinator seq1) (takeWhile isCombinator seq2) \<and>
   (lcs DefaultLcsComparator (takeWhile isCombinator seq1) (takeWhile isCombinator seq2) = takeWhile isCombinator seq2) =
      subseq (takeWhile isCombinator seq2) (takeWhile isCombinator seq1) \<and>
   (subseq (takeWhile isCombinator seq1) (takeWhile isCombinator seq2) \<or>
    subseq (takeWhile isCombinator seq2) (takeWhile isCombinator seq1)) =
     (subseq (takeWhile isCombinator seq1)
        (if length (takeWhile isCombinator seq1) > length (takeWhile isCombinator seq2)
         then takeWhile isCombinator seq1 else takeWhile isCombinator seq2) \<and>
      subseq (takeWhile isCombinator seq2)
        (if length (takeWhile isCombinator seq1) > length (takeWhile isCombinator seq2)
         then takeWhile isCombinator seq1 else takeWhile isCombinator seq2))"
proof -
  let ?o1 = "takeWhile isCombinator seq1" and ?o2 = "takeWhile isCombinator seq2"
  have a: "mergeInitialOps seq1 seq2 =
     (if lcs DefaultLcsComparator ?o1 ?o2 = ?o1 \<or> lcs DefaultLcsComparator ?o1 ?o2 = ?o2
      then Collection_Node (if length ?o1 > length ?o2 then ?o1 else ?o2)
      else Nil_Node,
      dropWhile isCombinator seq1, dropWhile isCombinator seq2)"
    by (simp add: mergeInitialOps_def getAndRemoveInitialOps_eq Let_def)
  have d: "(subseq ?o1 ?o2 \<or> subseq ?o2 ?o1) =
     (subseq ?o1 (if length ?o1 > length ?o2 then ?o1 else ?o2) \<and>
      subseq ?o2 (if length ?o1 > length ?o2 then ?o1 else ?o2))"
  proof (cases "length ?o1 > length ?o2")
    case True
    then have "\<not> subseq ?o1 ?o2" by simp
    then show ?thesis using True by simp
  next
    case False
    have "subseq ?o2 ?o1 \<Longrightarrow> subseq ?o1 ?o2"
    proof -
      assume s: "subseq ?o2 ?o1"
      then have "length ?o2 \<le> length ?o1" by (rule list_emb_length)
      then have "length ?o2 = length ?o1" using False by simp
      then have "?o2 = ?o1" using subseq_same_length[OF s] by simp
      then show ?thesis by simp
    qed
    then show ?thesis using False by auto
  qed
  show ?thesis using a d lcs_default_left[of ?o1 ?o2] lcs_default_right[of ?o1 ?o2] by blast
qed

text \<open>
  The operators \<^verbatim>\<open>+\<close> and \<^verbatim>\<open>>\<close>: neither is a subsequence of the other, and the merge
  is rejected. The operators \<^verbatim>\<open>+ >\<close> and \<^verbatim>\<open>>\<close>: the merge is \<^verbatim>\<open>+ >\<close>.
\<close>

theorem mergeInitialOps_subsequence_witness:
  "mergeInitialOps [Combinator_Node ADJACENT_TO, Selector_Node sel_a]
                   [Combinator_Node PARENT_OF, Selector_Node sel_a_b] =
     (Nil_Node, [Selector_Node sel_a], [Selector_Node sel_a_b]) \<and>
   mergeInitialOps [Combinator_Node ADJACENT_TO, Combinator_Node PARENT_OF, Selector_Node sel_a]
                   [Combinator_Node PARENT_OF, Selector_Node sel_a_b] =
     (Collection_Node [Combinator_Node ADJACENT_TO, Combinator_Node PARENT_OF],
      [Selector_Node sel_a], [Selector_Node sel_a_b])"
proof -
  have 1: "mergeInitialOps [Combinator_Node ADJACENT_TO, Selector_Node sel_a]
                   [Combinator_Node PARENT_OF, Selector_Node sel_a_b] =
     (Nil_Node, [Selector_Node sel_a], [Selector_Node sel_a_b])"
    using mergeInitialOps_subsequence[of "[Combinator_Node ADJACENT_TO, Selector_Node sel_a]"
        "[Combinator_Node PARENT_OF, Selector_Node sel_a_b]"]
    by simp
  have 2: "mergeInitialOps [Combinator_Node ADJACENT_TO, Combinator_Node PARENT_OF, Selector_Node sel_a]
                   [Combinator_Node PARENT_OF, Selector_Node sel_a_b] =
     (Collection_Node [Combinator_Node ADJACENT_TO, Combinator_Node PARENT_OF],
      [Selector_Node sel_a], [Selector_Node sel_a_b])"
    using mergeInitialOps_subsequence[of "[Combinator_Node ADJACENT_TO, Combinator_Node PARENT_OF, Selector_Node sel_a]"
        "[Combinator_Node PARENT_OF, Selector_Node sel_a_b]"]
    by simp
  from 1 2 show ?thesis by simp
qed

subsection \<open>mergeFinalOps\<close>

lemma getAndRemoveFinalOps_one:
  "getAndRemoveFinalOps (xs @ [Selector_Node s, Combinator_Node c]) [] =
     (xs @ [Selector_Node s], [Combinator_Node c])"
proof -
  have "getAndRemoveFinalOps (xs @ [Selector_Node s, Combinator_Node c]) [] =
        getAndRemoveFinalOps (xs @ [Selector_Node s]) [Combinator_Node c]"
    by (subst getAndRemoveFinalOps.simps) (simp add: butlast_append)
  also have "\<dots> = (xs @ [Selector_Node s], [Combinator_Node c])"
    by (subst getAndRemoveFinalOps.simps) simp
  finally show ?thesis .
qed

text \<open>
  C2 (amended). When both sequences end with a selector and the combinator \<^verbatim>\<open>~\<close>:
  if the selector of the first is a superselector of that of the second, the second
  selector (the one that matches less) and \<^verbatim>\<open>~\<close> are put in front of the result; else if
  the selector of the second is a superselector of that of the first, the first
  selector and \<^verbatim>\<open>~\<close> are; otherwise one collection of alternatives is: the first then
  \<^verbatim>\<open>~\<close> then the second then \<^verbatim>\<open>~\<close>, the reverse order, and, exactly when the
  unification of the two heads exists, the unified compound followed by \<^verbatim>\<open>~\<close>. The
  merge then goes on with what is left of the two sequences.
\<close>

theorem mergeFinalOps_tilde_tilde:
  "mergeFinalOps is_superselector_of unify_with createSelector
     (seq1 @ [Selector_Node s1, Combinator_Node PRECEDES])
     (seq2 @ [Selector_Node s2, Combinator_Node PRECEDES]) res =
   (if is_superselector_of s1 s2
    then mergeFinalOps is_superselector_of unify_with createSelector seq1 seq2
           (Selector_Node s2 # Combinator_Node PRECEDES # res)
    else if is_superselector_of s2 s1
    then mergeFinalOps is_superselector_of unify_with createSelector seq1 seq2
           (Selector_Node s1 # Combinator_Node PRECEDES # res)
    else (case (head s1, head s2) of
            (Some h1, Some h2) \<Rightarrow>
              mergeFinalOps is_superselector_of unify_with createSelector seq1 seq2
                (Collection_Node
                   ([Collection_Node [Selector_Node s1, Combinator_Node PRECEDES,
                                      Selector_Node s2, Combinator_Node PRECEDES],
                     Collection_Node [Selector_Node s2, Combinator_Node PRECEDES,
                                      Selector_Node s1, Combinator_Node PRECEDES]] @
                    (case unify_with h1 h2 of
                       None \<Rightarrow> []
                     | Some pMerged \<Rightarrow>
                         [Collection_Node
                            [createSelector (Complex_Selector (combinator s1) (Some pMerged) (tail s1)),
                             Combinator_Node PRECEDES]]))
                 # res)
          | _ \<Rightarrow> Inl Undefined_Behaviour))"
proof -
  have step: "mergeFinalOps_step is_superselector_of unify_with createSelector
     (seq1 @ [Selector_Node s1, Combinator_Node PRECEDES])
     (seq2 @ [Selector_Node s2, Combinator_Node PRECEDES]) res =
     mergeFinalOps_both is_superselector_of unify_with createSelector
       (Combinator_Node PRECEDES) (Combinator_Node PRECEDES) (Selector_Node s1) (Selector_Node s2) seq1 seq2 res"
    by (simp add: mergeFinalOps_step_def getAndRemoveFinalOps_one)
  show ?thesis
    apply (subst mergeFinalOps.simps)
    apply (simp only: step)
    apply (simp add: mergeFinalOps_both_def merged_wrapper_def split: option.splits)
    done
qed

text \<open>
  Of \<^verbatim>\<open>.a ~\<close> and \<^verbatim>\<open>.x.y ~\<close> neither selector is a superselector of the other, and
  their unification \<^verbatim>\<open>.a.x.y\<close> exists: three alternatives are put in the result.
\<close>

theorem mergeFinalOps_tilde_tilde_witness:
  "mergeFinalOps example_is_superselector_of example_unify_with Selector_Node
     [Selector_Node sel_a, Combinator_Node PRECEDES] [Selector_Node sel_x_y, Combinator_Node PRECEDES] [] =
   Inr (Collection_Node
          [Collection_Node
             [Collection_Node [Selector_Node sel_a, Combinator_Node PRECEDES,
                               Selector_Node sel_x_y, Combinator_Node PRECEDES],
              Collection_Node [Selector_Node sel_x_y, Combinator_Node PRECEDES,
                               Selector_Node sel_a, Combinator_Node PRECEDES],
              Collection_Node [Selector_Node (class_compound [''a'', ''x'', ''y''] []),
                               Combinator_Node PRECEDES]]],
        [], [])"
proof -
  have end_of_merge: "mergeFinalOps example_is_superselector_of example_unify_with Selector_Node [] [] res =
      Inr (Collection_Node res, [], [])" for res
    by (subst mergeFinalOps.simps) (simp add: mergeFinalOps_step_def getAndRemoveFinalOps.simps)
  show ?thesis
    using mergeFinalOps_tilde_tilde[of example_is_superselector_of example_unify_with Selector_Node
        "[]" sel_a "[]" sel_x_y "[]"]
    by (simp add: end_of_merge example_is_superselector_of_def example_unify_with_def
        sel_a_def sel_x_y_def class_compound_def)
qed

text \<open>
  The claim as stated fails: of \<^verbatim>\<open>.a ~\<close> and \<^verbatim>\<open>.a.b ~\<close>, where \<^verbatim>\<open>.a\<close> is the
  superselector (the more general), the pair put in the result is \<^verbatim>\<open>.a.b ~\<close>.
\<close>

theorem mergeFinalOps_tilde_tilde_counterexample:
  "example_is_superselector_of sel_a sel_a_b \<and> \<not> example_is_superselector_of sel_a_b sel_a \<and>
   mergeFinalOps example_is_superselector_of example_unify_with Selector_Node
     [Selector_Node sel_a, Combinator_Node PRECEDES] [Selector_Node sel_a_b, Combinator_Node PRECEDES] [] =
     Inr (Collection_Node [Selector_Node sel_a_b, Combinator_Node PRECEDES], [], [])"
  by code_simp

subsection \<open>weave\<close>

lemma weave_loop_append:
  "weave_loop ops befores (xs @ ys) =
     (case weave_loop ops befores xs of
        Inl e \<Rightarrow> Inl e
      | Inr None \<Rightarrow> Inr None
      | Inr (Some befores') \<Rightarrow> weave_loop ops befores' ys)"
proof (induction xs arbitrary: befores)
  case Nil
  then show ?case by simp
next
  case (Cons x xs)
  then show ?case by (simp split: option.splits sum.splits)
qed

lemma weave_befores_acc:
  "weave_befores ops current last_current bs acc =
     (case weave_befores ops current last_current bs [] of
        Inl e \<Rightarrow> Inl e
      | Inr None \<Rightarrow> Inr None
      | Inr (Some t) \<Rightarrow> Inr (Some (acc @ t)))"
proof (induction bs arbitrary: acc)
  case Nil
  then show ?case by simp
next
  case (Cons b bs)
  note IH = Cons.IH
  show ?case
  proof (cases "node_collection b")
    case None
    then show ?thesis by simp
  next
    case (Some bn)
    show ?thesis
    proof (cases "subweave ops bn current")
      case (Inl e)
      then show ?thesis using Some by simp
    next
      case (Inr sub)
      show ?thesis
      proof (cases "isNil sub")
        case True
        then show ?thesis using Some Inr by simp
      next
        case False
        show ?thesis
        proof (cases "node_collection sub")
          case None
          then show ?thesis using Some Inr False by simp
        next
          case sc: (Some sub_children)
          show ?thesis
          proof (cases "weave_append_last last_current sub_children")
            case (Inl e)
            then show ?thesis using Some Inr False sc by simp
          next
            case pushed: (Inr pushed)
            have "weave_befores ops current last_current (b # bs) acc =
                  weave_befores ops current last_current bs (acc @ pushed)"
              using Some Inr False sc pushed by simp
            moreover have "weave_befores ops current last_current (b # bs) [] =
                  weave_befores ops current last_current bs pushed"
              using Some Inr False sc pushed by simp
            ultimately show ?thesis
              using IH[of "acc @ pushed"] IH[of pushed]
              by (simp split: sum.splits option.splits)
          qed
        qed
      qed
    qed
  qed
qed

lemma weave_befores_Cons:
  "weave_befores ops current last_current (b # bs) [] =
     (case weave_befores ops current last_current [b] [] of
        Inl e \<Rightarrow> Inl e
      | Inr None \<Rightarrow> Inr None
      | Inr (Some t) \<Rightarrow> weave_befores ops current last_current bs t)"
  by (simp split: option.splits sum.splits)

lemma weave_befores_nil:
  assumes made: "\<forall>b\<in>set earlier. \<exists>r. weave_befores ops current last_current [b] [] = Inr r"
    and nil: "subweave ops before current = Inr Nil_Node"
  shows "weave_befores ops current last_current (earlier @ Collection_Node before # later) [] = Inr None"
  using made
proof (induction earlier)
  case Nil
  then show ?case using nil by simp
next
  case (Cons b es)
  then obtain r where r: "weave_befores ops current last_current [b] [] = Inr r" by auto
  have IH: "weave_befores ops current last_current (es @ Collection_Node before # later) [] = Inr None"
    using Cons by simp
  show ?case
  proof (cases r)
    case None
    then show ?thesis using r weave_befores_Cons[of ops current last_current b "es @ Collection_Node before # later"]
      by simp
  next
    case (Some t)
    have "weave_befores ops current last_current ((b # es) @ Collection_Node before # later) [] =
          weave_befores ops current last_current (es @ Collection_Node before # later) t"
      using r Some weave_befores_Cons[of ops current last_current b "es @ Collection_Node before # later"]
      by simp
    also have "\<dots> = Inr None"
      using IH weave_befores_acc[of ops current last_current "es @ Collection_Node before # later" t]
      by simp
    finally show ?thesis .
  qed
qed

text \<open>
  C3. Let the first part \<open>pre\<close> of a path be woven without a rejection into the prefixes
  \<open>befores\<close>, and let the next element \<open>current\<close> of the path be non-empty. If the
  \<^verbatim>\<open>subweave\<close> of some prefix \<open>before\<close> with \<open>current\<close> less its last node is nil, and
  the calls for the prefixes before it return (so that this call is made), then \<open>weave\<close>
  returns the empty collection for the whole path, whatever follows.
\<close>

theorem weave_nil_rejection:
  assumes pre: "weave_loop ops [Collection_Node []] pre = Inr (Some befores)"
    and cur: "current \<noteq> []"
    and split: "befores = earlier @ Collection_Node before # later"
    and made: "\<forall>b\<in>set earlier. \<exists>r. weave_befores ops (butlast current) [last current] [b] [] = Inr r"
    and nil: "subweave ops before (butlast current) = Inr Nil_Node"
  shows "weave ops (pre @ Collection_Node current # rest) = Inr (Collection_Node [])"
proof -
  have "weave_befores ops (butlast current) [last current] befores [] = Inr None"
    unfolding split using made nil by (rule weave_befores_nil)
  then have "weave_loop ops befores (Collection_Node current # rest) = Inr None"
    using cur by simp
  then have "weave_loop ops [Collection_Node []] (pre @ Collection_Node current # rest) = Inr None"
    using pre by (simp add: weave_loop_append)
  then show ?thesis by (simp add: weave_def)
qed

text \<open>
  The path of \<^verbatim>\<open>+ .a .a.b\<close> and \<^verbatim>\<open>> .x.y .a\<close>: the prefix \<^verbatim>\<open>+ .a .a.b\<close> and
  \<^verbatim>\<open>> .x.y\<close> start with the operators \<^verbatim>\<open>+\<close> and \<^verbatim>\<open>>\<close>, which do not merge; the
  \<^verbatim>\<open>subweave\<close> is nil and \<open>weave\<close> returns the empty collection, for all operations of the
  selector classes.
\<close>

theorem weave_nil_rejection_witness:
  "\<forall>ops :: (nat, nat) selector_ops.
     weave_loop ops [Collection_Node []]
       [Collection_Node [Combinator_Node ADJACENT_TO, Selector_Node sel_a, Selector_Node sel_a_b]] =
       Inr (Some [Collection_Node [Combinator_Node ADJACENT_TO, Selector_Node sel_a, Selector_Node sel_a_b]]) \<and>
     subweave ops [Combinator_Node ADJACENT_TO, Selector_Node sel_a, Selector_Node sel_a_b]
       [Combinator_Node PARENT_OF, Selector_Node sel_x_y] = Inr Nil_Node \<and>
     weave ops
       [Collection_Node [Combinator_Node ADJACENT_TO, Selector_Node sel_a, Selector_Node sel_a_b],
        Collection_Node [Combinator_Node PARENT_OF, Selector_Node sel_x_y, Selector_Node sel_a]] =
       Inr (Collection_Node [])"
proof (intro allI)
  fix ops :: "(nat, nat) selector_ops"
  let ?p1 = "Collection_Node [Combinator_Node ADJACENT_TO, Selector_Node sel_a, Selector_Node sel_a_b]"
  have pre: "weave_loop ops [Collection_Node []] [?p1] = Inr (Some [?p1])"
    by (simp add: subweave_def)
  have nil: "subweave ops [Combinator_Node ADJACENT_TO, Selector_Node sel_a, Selector_Node sel_a_b]
       (butlast [Combinator_Node PARENT_OF, Selector_Node sel_x_y, Selector_Node sel_a]) = Inr Nil_Node"
    using mergeInitialOps_subsequence[of "[Combinator_Node ADJACENT_TO, Selector_Node sel_a, Selector_Node sel_a_b]"
        "[Combinator_Node PARENT_OF, Selector_Node sel_x_y]"]
    by (simp add: subweave_def)
  have "weave ops ([?p1] @ Collection_Node [Combinator_Node PARENT_OF, Selector_Node sel_x_y, Selector_Node sel_a] # []) =
       Inr (Collection_Node [])"
    by (rule weave_nil_rejection[OF pre _ _ _ nil, where earlier = "[]" and later = "[]"]) simp_all
  then show "weave_loop ops [Collection_Node []] [?p1] = Inr (Some [?p1]) \<and>
     subweave ops [Combinator_Node ADJACENT_TO, Selector_Node sel_a, Selector_Node sel_a_b]
       [Combinator_Node PARENT_OF, Selector_Node sel_x_y] = Inr Nil_Node \<and>
     weave ops [?p1, Collection_Node [Combinator_Node PARENT_OF, Selector_Node sel_x_y, Selector_Node sel_a]] =
       Inr (Collection_Node [])"
    using pre nil by simp
qed

subsection \<open>The extend driver\<close>

lemma extendCompound_holder_keys:
  "pair \<in> set (fst (extendCompound_holder ops pSelector arr)) \<Longrightarrow>
     \<exists>groupedPair\<in>set arr. fst pair = group_pSels (snd groupedPair)"
proof (induction arr)
  case Nil
  then show ?case by simp
next
  case (Cons groupedPair arr)
  then show ?case
    by (auto simp: Let_def split: option.splits if_splits)
qed

lemma extendCompound_recurse_skip:
  "ast_seen_key ops pSels \<in> seen \<Longrightarrow>
     extendCompound_recurse recurse ops seen ((pSels, pNewSelector) # holder) extendedSelectors marked =
     extendCompound_recurse recurse ops seen holder extendedSelectors marked"
  by simp

lemma extendCompound_recurse_cong:
  "(\<And>pair. pair \<in> set holder \<Longrightarrow> ast_seen_key ops (fst pair) \<notin> seen \<Longrightarrow>
      recurse (snd pair) (insert (ast_seen_key ops (fst pair)) seen) =
      recurse' (snd pair) (insert (ast_seen_key ops (fst pair)) seen)) \<Longrightarrow>
   extendCompound_recurse recurse ops seen holder extendedSelectors marked =
   extendCompound_recurse recurse' ops seen holder extendedSelectors marked"
proof (induction holder arbitrary: extendedSelectors marked)
  case Nil
  then show ?case by simp
next
  case (Cons pair holder)
  have tl: "\<And>ext m. extendCompound_recurse recurse ops seen holder ext m =
                     extendCompound_recurse recurse' ops seen holder ext m"
    by (rule Cons.IH) (simp add: Cons.prems)
  show ?case
  proof (cases "ast_seen_key ops (fst pair) \<in> seen")
    case True
    then show ?thesis by (simp add: tl)
  next
    case False
    then have "recurse (snd pair) (insert (ast_seen_key ops (fst pair)) seen) =
               recurse' (snd pair) (insert (ast_seen_key ops (fst pair)) seen)"
      using Cons.prems[of pair] by simp
    then show ?thesis using False
      by (simp add: tl split: option.splits sum.splits prod.splits)
  qed
qed

lemma extendCompound_recurse_returns:
  "(\<And>pair. pair \<in> set holder \<Longrightarrow> ast_seen_key ops (fst pair) \<notin> seen \<Longrightarrow>
      \<exists>r. recurse (snd pair) (insert (ast_seen_key ops (fst pair)) seen) = Some r) \<Longrightarrow>
   \<exists>r. extendCompound_recurse recurse ops seen holder extendedSelectors marked = Some r"
proof (induction holder arbitrary: extendedSelectors marked)
  case Nil
  then show ?case by simp
next
  case (Cons pair holder)
  have tl: "\<And>ext m. \<exists>r. extendCompound_recurse recurse ops seen holder ext m = Some r"
    by (rule Cons.IH) (simp add: Cons.prems)
  show ?case
  proof (cases "ast_seen_key ops (fst pair) \<in> seen")
    case True
    then show ?thesis by (simp add: tl)
  next
    case False
    then obtain r where "recurse (snd pair) (insert (ast_seen_key ops (fst pair)) seen) = Some r"
      using Cons.prems[of pair] by auto
    then show ?thesis using False
      by (simp add: tl split: option.splits sum.splits prod.splits)
  qed
qed

lemma extendComplex_positions_returns:
  "(\<And>pCompoundSelector. \<exists>r. extendCompound pCompoundSelector = Some r) \<Longrightarrow>
   \<exists>r. extendComplex_positions extendCompound ops pComplexSelector isOriginal complexSelector = Some r"
proof (induction complexSelector)
  case Nil
  then show ?case by simp
next
  case (Cons sseqOrOp rest)
  from Cons.IH[OF Cons.prems] obtain r
    where r: "extendComplex_positions extendCompound ops pComplexSelector isOriginal rest = Some r"
    by blast
  show ?case
  proof (cases "node_selector sseqOrOp")
    case None
    then show ?thesis using r by (simp split: sum.splits prod.splits)
  next
    case (Some sel)
    show ?thesis
    proof (cases "head sel")
      case None
      then show ?thesis using Some by simp
    next
      case (Some pCompoundSelector)
      obtain r' where "extendCompound pCompoundSelector = Some r'"
        using Cons.prems[of pCompoundSelector] by blast
      then show ?thesis using Some \<open>node_selector sseqOrOp = Some sel\<close> r
        by (simp split: sum.splits prod.splits option.splits)
    qed
  qed
qed

lemma extend_returns:
  fixes ops :: "('k, 'sm) selector_ops"
  assumes fin: "finite U"
    and keys: "\<forall>pSelector. \<forall>groupedPair\<in>set (ast_group_by_to_a ops (ast_get_v ops subset_map pSelector)).
                 ast_seen_key ops (group_pSels (snd groupedPair)) \<in> U"
  shows "(\<forall>seen pSelector. 2 * card (U - seen) + 1 \<le> fuel \<longrightarrow>
            (\<exists>r. extendCompoundSelector fuel ops subset_map pSelector seen isReplace = Some r)) \<and>
         (\<forall>seen pComplexSelector isOriginal. 2 * card (U - seen) + 2 \<le> fuel \<longrightarrow>
            (\<exists>r. extendComplexSelector fuel ops subset_map pComplexSelector seen isReplace isOriginal = Some r))"
proof (induction fuel)
  case 0
  then show ?case by simp
next
  case (Suc fuel)
  have compound: "\<exists>r. extendCompoundSelector (Suc fuel) ops subset_map pSelector seen isReplace = Some r"
    if le: "2 * card (U - seen) + 1 \<le> Suc fuel" for seen pSelector
  proof -
    let ?holder = "extendCompound_holder ops pSelector
                     (ast_group_by_to_a ops (ast_get_v ops subset_map pSelector))"
    let ?recurse = "\<lambda>pNewSelector recurseSeen.
                      extendComplexSelector fuel ops subset_map pNewSelector recurseSeen isReplace False"
    have "\<exists>r. ?recurse (snd pair) (insert (ast_seen_key ops (fst pair)) seen) = Some r"
      if mem: "pair \<in> set (fst ?holder)" and new: "ast_seen_key ops (fst pair) \<notin> seen" for pair
    proof -
      from extendCompound_holder_keys[OF mem] obtain groupedPair
        where gp: "groupedPair \<in> set (ast_group_by_to_a ops (ast_get_v ops subset_map pSelector))"
          and eq: "fst pair = group_pSels (snd groupedPair)"
        by blast
      from keys gp have "ast_seen_key ops (group_pSels (snd groupedPair)) \<in> U" by blast
      then have inU: "ast_seen_key ops (fst pair) \<in> U" by (simp add: eq)
      then have "U - insert (ast_seen_key ops (fst pair)) seen = (U - seen) - {ast_seen_key ops (fst pair)}"
        by auto
      moreover have "ast_seen_key ops (fst pair) \<in> U - seen" using inU new by simp
      ultimately have "card (U - insert (ast_seen_key ops (fst pair)) seen) < card (U - seen)"
        using fin by (metis card_Diff1_less finite_Diff)
      then have "2 * card (U - insert (ast_seen_key ops (fst pair)) seen) + 2 \<le> fuel"
        using le by simp
      then show ?thesis using Suc.IH by blast
    qed
    then obtain r where
      "extendCompound_recurse ?recurse ops seen (fst ?holder) [] (snd ?holder) = Some r"
      using extendCompound_recurse_returns[of "fst ?holder" ops seen ?recurse "[]" "snd ?holder"]
      by blast
    then show ?thesis
      by (simp add: Let_def split: sum.splits prod.splits)
  qed
  have complex: "\<exists>r. extendComplexSelector (Suc fuel) ops subset_map pComplexSelector seen isReplace isOriginal = Some r"
    if le: "2 * card (U - seen) + 2 \<le> Suc fuel" for seen pComplexSelector isOriginal
  proof (cases "node_collection (ast_complexSelectorToNode ops pComplexSelector)")
    case None
    then show ?thesis by simp
  next
    case (Some complexSelector)
    have "\<And>pCompoundSelector.
            \<exists>r. extendCompoundSelector fuel ops subset_map pCompoundSelector seen isReplace = Some r"
      using Suc.IH le by simp
    from extendComplex_positions_returns[of
        "\<lambda>pCompoundSelector. extendCompoundSelector fuel ops subset_map pCompoundSelector seen isReplace",
        OF this, of ops pComplexSelector isOriginal complexSelector]
    obtain r where "extendComplex_positions
        (\<lambda>pCompoundSelector. extendCompoundSelector fuel ops subset_map pCompoundSelector seen isReplace)
        ops pComplexSelector isOriginal complexSelector = Some r" by blast
    then show ?thesis using Some
      by (simp split: sum.splits prod.splits)
  qed
  show ?case using compound complex by blast
qed

lemma extendCompound_recurse_mono:
  "(\<And>x s r. recurse x s = Some r \<Longrightarrow> recurse' x s = Some r) \<Longrightarrow>
   extendCompound_recurse recurse ops seen holder extendedSelectors marked = Some res \<Longrightarrow>
   extendCompound_recurse recurse' ops seen holder extendedSelectors marked = Some res"
proof (induction holder arbitrary: extendedSelectors marked)
  case Nil
  then show ?case by simp
next
  case (Cons pair holder)
  have IH: "\<And>ext m. extendCompound_recurse recurse ops seen holder ext m = Some res \<Longrightarrow>
                      extendCompound_recurse recurse' ops seen holder ext m = Some res"
    using Cons.IH Cons.prems(1) by blast
  show ?case
  proof (cases "ast_seen_key ops (fst pair) \<in> seen")
    case True
    then show ?thesis using IH Cons.prems(2) by simp
  next
    case False
    then obtain r where r: "recurse (snd pair) (insert (ast_seen_key ops (fst pair)) seen) = Some r"
      using Cons.prems(2) by (auto split: option.splits)
    then have r': "recurse' (snd pair) (insert (ast_seen_key ops (fst pair)) seen) = Some r"
      by (rule Cons.prems(1))
    show ?thesis
    proof (cases r)
      case (Inl e)
      then show ?thesis using False r r' Cons.prems(2) by simp
    next
      case (Inr p)
      show ?thesis
      proof (cases "node_collection (fst p)")
        case None
        then show ?thesis using False r r' Inr Cons.prems(2) by (simp split: prod.splits)
      next
        case (Some newSelectors)
        then have "extendCompound_recurse recurse ops seen holder
                     (push_new_selectors ops extendedSelectors newSelectors) (marked @ snd p) = Some res"
          using False r Inr Cons.prems(2) by (simp split: prod.splits)
        then have "extendCompound_recurse recurse' ops seen holder
                     (push_new_selectors ops extendedSelectors newSelectors) (marked @ snd p) = Some res"
          by (rule IH)
        then show ?thesis using False r' Inr Some by (cases p) simp
      qed
    qed
  qed
qed

lemma extendComplex_positions_mono:
  "(\<And>x r. extendCompound x = Some r \<Longrightarrow> extendCompound' x = Some r) \<Longrightarrow>
   extendComplex_positions extendCompound ops pComplexSelector isOriginal complexSelector = Some res \<Longrightarrow>
   extendComplex_positions extendCompound' ops pComplexSelector isOriginal complexSelector = Some res"
proof (induction complexSelector arbitrary: res)
  case Nil
  then show ?case by simp
next
  case (Cons sseqOrOp rest)
  have IH: "\<And>r. extendComplex_positions extendCompound ops pComplexSelector isOriginal rest = Some r \<Longrightarrow>
                   extendComplex_positions extendCompound' ops pComplexSelector isOriginal rest = Some r"
    using Cons.IH Cons.prems(1) by blast
  show ?case
  proof (cases "node_selector sseqOrOp")
    case None
    then obtain r where r: "extendComplex_positions extendCompound ops pComplexSelector isOriginal rest = Some r"
      using Cons.prems(2) by (auto split: option.splits)
    then have "extendComplex_positions extendCompound' ops pComplexSelector isOriginal rest = Some r"
      by (rule IH)
    then show ?thesis using None r Cons.prems(2) by simp
  next
    case (Some sel)
    show ?thesis
    proof (cases "head sel")
      case None
      then show ?thesis using Some Cons.prems(2) by simp
    next
      case (Some pCompoundSelector)
      note sel = \<open>node_selector sseqOrOp = Some sel\<close>
      obtain r where r: "extendCompound pCompoundSelector = Some r"
        using Cons.prems(2) sel Some by (auto split: option.splits)
      then have r': "extendCompound' pCompoundSelector = Some r"
        by (rule Cons.prems(1))
      show ?thesis
      proof (cases r)
        case (Inl e)
        then show ?thesis using sel Some r r' Cons.prems(2) by simp
      next
        case (Inr p)
        show ?thesis
        proof (cases "node_collection (fst p)")
          case None
          then show ?thesis using sel Some r r' Inr Cons.prems(2) by (simp split: prod.splits)
        next
          case c: (Some extended_children)
          obtain q where q: "extendComplex_positions extendCompound ops pComplexSelector isOriginal rest = Some q"
            using Cons.prems(2) sel Some r Inr c
            by (cases "extendComplex_positions extendCompound ops pComplexSelector isOriginal rest")
               (simp_all split: prod.splits)
          then have q': "extendComplex_positions extendCompound' ops pComplexSelector isOriginal rest = Some q"
            by (rule IH)
          show ?thesis using Cons.prems(2) sel Some r r' Inr c q q'
            by (cases p) simp
        qed
      qed
    qed
  qed
qed

lemma extend_fuel_Suc:
  "(\<forall>seen pSelector r.
      extendCompoundSelector fuel ops subset_map pSelector seen isReplace = Some r \<longrightarrow>
      extendCompoundSelector (Suc fuel) ops subset_map pSelector seen isReplace = Some r) \<and>
   (\<forall>seen pComplexSelector isOriginal r.
      extendComplexSelector fuel ops subset_map pComplexSelector seen isReplace isOriginal = Some r \<longrightarrow>
      extendComplexSelector (Suc fuel) ops subset_map pComplexSelector seen isReplace isOriginal = Some r)"
proof (induction fuel)
  case 0
  then show ?case by simp
next
  case (Suc fuel)
  have compound: "extendCompoundSelector (Suc (Suc fuel)) ops subset_map pSelector seen isReplace = Some r"
    if eq: "extendCompoundSelector (Suc fuel) ops subset_map pSelector seen isReplace = Some r"
    for seen pSelector r
  proof -
    let ?holder = "extendCompound_holder ops pSelector
                     (ast_group_by_to_a ops (ast_get_v ops subset_map pSelector))"
    let ?recurse = "\<lambda>fuel pNewSelector recurseSeen.
                      extendComplexSelector fuel ops subset_map pNewSelector recurseSeen isReplace False"
    obtain res where res: "extendCompound_recurse (?recurse fuel) ops seen (fst ?holder) [] (snd ?holder) = Some res"
      using eq by (auto simp: Let_def split: option.splits)
    have "extendCompound_recurse (?recurse (Suc fuel)) ops seen (fst ?holder) [] (snd ?holder) = Some res"
      by (rule extendCompound_recurse_mono[OF _ res]) (use Suc.IH in blast)
    then show ?thesis using eq res by (simp add: Let_def)
  qed
  have complex: "extendComplexSelector (Suc (Suc fuel)) ops subset_map pComplexSelector seen isReplace isOriginal = Some r"
    if eq: "extendComplexSelector (Suc fuel) ops subset_map pComplexSelector seen isReplace isOriginal = Some r"
    for seen pComplexSelector isOriginal r
  proof (cases "node_collection (ast_complexSelectorToNode ops pComplexSelector)")
    case None
    then show ?thesis using eq by simp
  next
    case (Some complexSelector)
    let ?ext = "\<lambda>fuel pCompoundSelector.
                  extendCompoundSelector fuel ops subset_map pCompoundSelector seen isReplace"
    obtain res where res: "extendComplex_positions (?ext fuel) ops pComplexSelector isOriginal complexSelector = Some res"
      using eq Some by (auto split: option.splits)
    have "extendComplex_positions (?ext (Suc fuel)) ops pComplexSelector isOriginal complexSelector = Some res"
      by (rule extendComplex_positions_mono[OF _ res]) (use Suc.IH in blast)
    then show ?thesis using eq res Some by simp
  qed
  show ?case using compound complex by blast
qed

lemma extendCompoundSelector_fuel_Suc:
  "extendCompoundSelector fuel ops subset_map pSelector seen isReplace = Some r \<Longrightarrow>
   extendCompoundSelector (Suc fuel) ops subset_map pSelector seen isReplace = Some r"
  by (rule conjunct1[OF extend_fuel_Suc, rule_format])

lemma extendComplexSelector_fuel_Suc:
  "extendComplexSelector fuel ops subset_map pComplexSelector seen isReplace isOriginal = Some r \<Longrightarrow>
   extendComplexSelector (Suc fuel) ops subset_map pComplexSelector seen isReplace isOriginal = Some r"
  by (rule conjunct2[OF extend_fuel_Suc, rule_format])

lemma extendCompoundSelector_fuel_mono:
  assumes "fuel \<le> fuel'"
    and "extendCompoundSelector fuel ops subset_map pSelector seen isReplace = Some r"
  shows "extendCompoundSelector fuel' ops subset_map pSelector seen isReplace = Some r"
  using assms by (induction rule: dec_induct) (blast intro: extendCompoundSelector_fuel_Suc)+

lemma extendComplexSelector_fuel_mono:
  assumes "fuel \<le> fuel'"
    and "extendComplexSelector fuel ops subset_map pComplexSelector seen isReplace isOriginal = Some r"
  shows "extendComplexSelector fuel' ops subset_map pComplexSelector seen isReplace isOriginal = Some r"
  using assms by (induction rule: dec_induct) (blast intro: extendComplexSelector_fuel_Suc)+

lemma extendCompound_recurse_filter:
  "extendCompound_recurse recurse ops seen
     (filter (\<lambda>pair. ast_seen_key ops (fst pair) \<notin> seen) holder) extendedSelectors marked =
   extendCompound_recurse recurse ops seen holder extendedSelectors marked"
  by (induction holder arbitrary: extendedSelectors marked)
     (simp_all split: option.splits sum.splits prod.splits)

text \<open>
  C4. In the second loop of \<^verbatim>\<open>extendCompoundSelector\<close>, a pair whose \<open>pSels\<close> is in
  \<open>seen\<close> contributes nothing: the loop gives the same result on the holder without these
  pairs. The loop consults the recursive call only on a new selector together with
  \<open>seen\<close> extended with the \<open>pSels\<close> of its pair. Consequently, when the composite
  extendees that the subset map can produce lie in a finite set \<open>U\<close>, both functions
  return: with the fuel \<open>2 * card (U - seen) + 1\<close> (\<open>+ 2\<close> for a complex selector) and
  with any greater fuel they give one and the same result.
\<close>

theorem extendCompoundSelector_seen_guard:
  fixes ops :: "('k, 'sm) selector_ops"
  assumes fin: "finite U"
    and keys: "\<forall>pSelector. \<forall>groupedPair\<in>set (ast_group_by_to_a ops (ast_get_v ops subset_map pSelector)).
                 ast_seen_key ops (group_pSels (snd groupedPair)) \<in> U"
  shows "extendCompound_recurse recurse ops seen holder extendedSelectors marked =
           extendCompound_recurse recurse ops seen
             (filter (\<lambda>pair. ast_seen_key ops (fst pair) \<notin> seen) holder) extendedSelectors marked \<and>
         ((\<forall>pair\<in>set holder. ast_seen_key ops (fst pair) \<notin> seen \<longrightarrow>
              recurse (snd pair) (insert (ast_seen_key ops (fst pair)) seen) =
              recurse' (snd pair) (insert (ast_seen_key ops (fst pair)) seen)) \<longrightarrow>
          extendCompound_recurse recurse ops seen holder extendedSelectors marked =
            extendCompound_recurse recurse' ops seen holder extendedSelectors marked) \<and>
         (\<exists>r. \<forall>fuel\<ge>2 * card (U - seen) + 1.
            extendCompoundSelector fuel ops subset_map pSelector seen isReplace = Some r) \<and>
         (\<exists>r. \<forall>fuel\<ge>2 * card (U - seen) + 2.
            extendComplexSelector fuel ops subset_map pComplexSelector seen isReplace isOriginal = Some r)"
proof (intro conjI)
  show "extendCompound_recurse recurse ops seen holder extendedSelectors marked =
          extendCompound_recurse recurse ops seen
            (filter (\<lambda>pair. ast_seen_key ops (fst pair) \<notin> seen) holder) extendedSelectors marked"
    by (simp only: extendCompound_recurse_filter)
next
  show "(\<forall>pair\<in>set holder. ast_seen_key ops (fst pair) \<notin> seen \<longrightarrow>
            recurse (snd pair) (insert (ast_seen_key ops (fst pair)) seen) =
            recurse' (snd pair) (insert (ast_seen_key ops (fst pair)) seen)) \<longrightarrow>
        extendCompound_recurse recurse ops seen holder extendedSelectors marked =
          extendCompound_recurse recurse' ops seen holder extendedSelectors marked"
    using extendCompound_recurse_cong[of holder ops seen recurse recurse' extendedSelectors marked]
    by blast
next
  note returns = extend_returns[OF fin keys, where isReplace = isReplace]
  let ?n = "2 * card (U - seen) + 1"
  obtain r where r: "extendCompoundSelector ?n ops subset_map pSelector seen isReplace = Some r"
    using returns[where fuel = ?n] by blast
  have "\<forall>fuel\<ge>?n. extendCompoundSelector fuel ops subset_map pSelector seen isReplace = Some r"
    using extendCompoundSelector_fuel_mono[OF _ r] by blast
  then show "\<exists>r. \<forall>fuel\<ge>?n. extendCompoundSelector fuel ops subset_map pSelector seen isReplace = Some r"
    by blast
  let ?m = "2 * card (U - seen) + 2"
  obtain q where q: "extendComplexSelector ?m ops subset_map pComplexSelector seen isReplace isOriginal = Some q"
    using returns[where fuel = ?m] by blast
  have "\<forall>fuel\<ge>?m. extendComplexSelector fuel ops subset_map pComplexSelector seen isReplace isOriginal = Some q"
    using extendComplexSelector_fuel_mono[OF _ q] by blast
  then show "\<exists>r. \<forall>fuel\<ge>?m.
      extendComplexSelector fuel ops subset_map pComplexSelector seen isReplace isOriginal = Some r"
    by blast
qed

text \<open>
  \<^verbatim>\<open>.a { @extend .b }\<close> and \<^verbatim>\<open>.b { @extend .a }\<close>: the composite extendees are \<^verbatim>\<open>.a\<close>
  and \<^verbatim>\<open>.b\<close>, and the extension of \<^verbatim>\<open>.a\<close> returns, whatever the other operations of
  the selector classes are.
\<close>

theorem extendCompoundSelector_seen_guard_witness:
  "\<forall>ops :: (simple_selector list, unit) selector_ops.
     (\<exists>r. extendCompoundSelector 5 (mutual_ops ops) () (new_Compound_Selector [Class_Selector ''a'']) {} False = Some r \<and>
          extendCompoundSelector 6 (mutual_ops ops) () (new_Compound_Selector [Class_Selector ''a'']) {} False = Some r) \<and>
     (\<exists>r. extendComplexSelector 6 (mutual_ops ops) () sel_a {} False True = Some r \<and>
          extendComplexSelector 7 (mutual_ops ops) () sel_a {} False True = Some r)"
proof (intro allI)
  fix ops :: "(simple_selector list, unit) selector_ops"
  let ?U = "{[Class_Selector ''a''], [Class_Selector ''b'']}"
  have fin: "finite ?U" by simp
  have keys: "\<forall>pSelector. \<forall>groupedPair\<in>set (ast_group_by_to_a (mutual_ops ops)
                  (ast_get_v (mutual_ops ops) () pSelector)).
                ast_seen_key (mutual_ops ops) (group_pSels (snd groupedPair)) \<in> ?U"
    by (auto simp: mutual_ops_def mutual_get_v_def singleton_groups_def group_pSels_def
          new_Compound_Selector_def)
  have card: "2 * card (?U - {}) + 1 = 5" "2 * card (?U - {}) + 2 = 6" by simp_all
  note rule = extendCompoundSelector_seen_guard[OF fin keys, where seen = "{}" and isReplace = False
      and isOriginal = True and pSelector = "new_Compound_Selector [Class_Selector ''a'']"
      and pComplexSelector = sel_a and holder = "[]", unfolded card]
  from rule obtain r where r: "\<forall>fuel\<ge>5. extendCompoundSelector fuel (mutual_ops ops) ()
      (new_Compound_Selector [Class_Selector ''a'']) {} False = Some r"
    by blast
  from rule obtain q where q: "\<forall>fuel\<ge>6. extendComplexSelector fuel (mutual_ops ops) ()
      sel_a {} False True = Some q"
    by blast
  have "extendCompoundSelector 5 (mutual_ops ops) () (new_Compound_Selector [Class_Selector ''a'']) {} False = Some r \<and>
        extendCompoundSelector 6 (mutual_ops ops) () (new_Compound_Selector [Class_Selector ''a'']) {} False = Some r"
    using r by simp
  moreover have "extendComplexSelector 6 (mutual_ops ops) () sel_a {} False True = Some q \<and>
        extendComplexSelector 7 (mutual_ops ops) () sel_a {} False True = Some q"
    using q by simp
  ultimately show "(\<exists>r. extendCompoundSelector 5 (mutual_ops ops) () (new_Compound_Selector [Class_Selector ''a'']) {} False = Some r \<and>
          extendCompoundSelector 6 (mutual_ops ops) () (new_Compound_Selector [Class_Selector ''a'']) {} False = Some r) \<and>
     (\<exists>r. extendComplexSelector 6 (mutual_ops ops) () sel_a {} False True = Some r \<and>
          extendComplexSelector 7 (mutual_ops ops) () sel_a {} False True = Some r)"
    by blast
qed

subsection \<open>extendSelectorList on an empty subset map\<close>

lemma hasExtension_empty:
  assumes "\<forall>pHead. ast_get_v ops subset_map pHead = []"
  shows "complexSelectorHasExtension ops subset_map seen cs = Inr False"
    and "hasExtension_simples ops subset_map seen simples = Inr False"
    and "hasExtension_list ops subset_map seen sl = Inr False"
    and "hasExtension_tails ops subset_map seen cs' = Inr False"
  using assms
  by (induction ops subset_map seen cs and ops subset_map seen simples and ops subset_map seen sl
        and ops subset_map seen cs'
        rule: complexSelectorHasExtension_hasExtension_simples_hasExtension_list_hasExtension_tails.induct)
     (force simp: Let_def split: option.splits simple_selector.splits)+

lemma extendList_loop_empty:
  assumes "\<forall>pHead. ast_get_v ops subset_map pHead = []"
  shows "extendList_loop extendComplex ops subset_map seen isReplace pSelectorList =
           Some (Inr ((pSelectorList, False), []))"
  by (induction pSelectorList) (simp_all add: hasExtension_empty(1)[OF assms])

lemma unwrap_simples_plain:
  "\<not> list_ex is_wrapped_list simples \<Longrightarrow> unwrap_simples extendInner ops simples = Some (Inr (simples, []))"
proof (induction simples)
  case Nil
  then show ?case by simp
next
  case (Cons hs rest)
  then show ?case by (cases hs) simp_all
qed

lemma unwrap_tails_plain:
  "plain_complex cur \<Longrightarrow> unwrap_tails extendInner ops seen cur = Some (Inr (cur, []))"
proof (induction cur rule: plain_complex.induct)
  case (1 c h t)
  have head: "(case h of
              None \<Rightarrow> Some (Inr (None, []))
            | Some cur_head \<Rightarrow>
                if ast_seen_key ops cur_head \<in> seen then Some (Inr (Some cur_head, []))
                else (case unwrap_simples
                             (\<lambda>sl. extendInner sl (insert (ast_seen_key ops cur_head) seen))
                             ops (elements cur_head) of
                        None \<Rightarrow> None
                      | Some (Inl e) \<Rightarrow> Some (Inl e)
                      | Some (Inr (cpy, marked)) \<Rightarrow>
                          Some (Inr (Some (new_Compound_Selector cpy), marked)))) = Some (Inr (h, []))"
  proof (cases h)
    case None
    then show ?thesis by simp
  next
    case (Some cur_head)
    then have "plain_compound cur_head" using 1 by simp
    then show ?thesis using Some
      by (simp add: plain_compound_def unwrap_simples_plain)
  qed
  show ?case
  proof (cases t)
    case None
    then show ?thesis by (simp add: head)
  next
    case (Some cur)
    then have "unwrap_tails extendInner ops seen cur = Some (Inr (cur, []))"
      using 1 by simp
    then show ?thesis using Some by (simp add: head)
  qed
qed

lemma unwrap_list_plain:
  "list_all plain_complex l \<Longrightarrow> unwrap_list extendInner ops seen l = Some (Inr (l, []))"
  by (induction l) (simp_all add: unwrap_tails_plain)

lemma extendSelectorList_plain:
  assumes "\<forall>pHead. ast_get_v ops subset_map pHead = []"
    and "ast_remove_placeholders ops pSelectorList = pSelectorList"
    and "list_all plain_complex pSelectorList"
  shows "extendSelectorList (Suc fuel) ops subset_map pSelectorList isReplace seen =
           Some (Inr ((pSelectorList, False), []))"
  by (simp add: extendList_loop_empty[OF assms(1)] assms(2) unwrap_list_plain[OF assms(3)])

lemma wrapped_depth_mem: "cs \<in> set sl \<Longrightarrow> wrapped_depth cs \<le> wrapped_depth_list sl"
  by (induction sl) auto

lemma wrapped_depth_list_le: "(\<forall>cs\<in>set sl. wrapped_depth cs \<le> n) \<Longrightarrow> wrapped_depth_list sl \<le> n"
  by (induction sl) auto

lemma wrapped_depth_list_subset: "set a \<subseteq> set b \<Longrightarrow> wrapped_depth_list a \<le> wrapped_depth_list b"
  by (rule wrapped_depth_list_le) (auto intro: wrapped_depth_mem)

lemma unwrap_simples_returns:
  assumes inner: "\<And>sl. Suc (wrapped_depth_list sl) \<le> n \<Longrightarrow> \<exists>r. extendInner sl = Some (Inr (r, []))"
  shows "wrapped_depth_simples simples \<le> n \<Longrightarrow>
         \<exists>r. unwrap_simples extendInner ops simples = Some (Inr (r, []))"
proof (induction simples)
  case Nil
  then show ?case by simp
next
  case (Cons hs rest)
  then obtain r where r: "unwrap_simples extendInner ops rest = Some (Inr (r, []))"
    by auto
  show ?case
  proof (cases hs)
    case (Wrapped_Selector name sl)
    show ?thesis
    proof (cases "sl = []")
      case True
      then show ?thesis using Wrapped_Selector r by simp
    next
      case False
      have "Suc (wrapped_depth_list sl) \<le> n" using Cons.prems Wrapped_Selector by simp
      then obtain q where "extendInner sl = Some (Inr (q, []))" using inner by blast
      then show ?thesis using Wrapped_Selector r False by simp
    qed
  qed (use r in simp_all)
qed

lemma unwrap_tails_returns:
  "(\<And>sl recseen. Suc (wrapped_depth_list sl) \<le> n \<Longrightarrow>
       \<exists>r. extendInner sl recseen = Some (Inr (r, []))) \<Longrightarrow>
   wrapped_depth cur \<le> n \<Longrightarrow> \<exists>r. unwrap_tails extendInner ops seen cur = Some (Inr (r, []))"
proof (induction extendInner ops seen cur rule: unwrap_tails.induct)
  case (1 extendInner ops seen c h t)
  have head: "\<exists>cpy_head. (case h of
              None \<Rightarrow> Some (Inr (None, []))
            | Some cur_head \<Rightarrow>
                if ast_seen_key ops cur_head \<in> seen then Some (Inr (Some cur_head, []))
                else (case unwrap_simples
                             (\<lambda>sl. extendInner sl (insert (ast_seen_key ops cur_head) seen))
                             ops (elements cur_head) of
                        None \<Rightarrow> None
                      | Some (Inl e) \<Rightarrow> Some (Inl e)
                      | Some (Inr (cpy, marked)) \<Rightarrow>
                          Some (Inr (Some (new_Compound_Selector cpy), marked)))) = Some (Inr (cpy_head, []))"
  proof (cases h)
    case None
    then show ?thesis by simp
  next
    case (Some cur_head)
    have "wrapped_depth_simples (elements cur_head) \<le> n"
      using "1.prems"(2) Some by (cases cur_head) simp
    from unwrap_simples_returns[of n "\<lambda>sl. extendInner sl (insert (ast_seen_key ops cur_head) seen)",
        OF _ this, of ops] "1.prems"(1)
    obtain r where "unwrap_simples (\<lambda>sl. extendInner sl (insert (ast_seen_key ops cur_head) seen))
                      ops (elements cur_head) = Some (Inr (r, []))"
      by blast
    then show ?thesis using Some by simp
  qed
  then obtain cpy_head where head': "(case h of
              None \<Rightarrow> Some (Inr (None, []))
            | Some cur_head \<Rightarrow>
                if ast_seen_key ops cur_head \<in> seen then Some (Inr (Some cur_head, []))
                else (case unwrap_simples
                             (\<lambda>sl. extendInner sl (insert (ast_seen_key ops cur_head) seen))
                             ops (elements cur_head) of
                        None \<Rightarrow> None
                      | Some (Inl e) \<Rightarrow> Some (Inl e)
                      | Some (Inr (cpy, marked)) \<Rightarrow>
                          Some (Inr (Some (new_Compound_Selector cpy), marked)))) = Some (Inr (cpy_head, []))"
    by blast
  show ?case
  proof (cases t)
    case None
    then show ?thesis by (simp add: head')
  next
    case (Some cur)
    have "wrapped_depth cur \<le> n"
    proof (cases h)
      case None
      then show ?thesis using "1.prems"(2) Some by simp
    next
      case h: (Some cur_head)
      then show ?thesis using "1.prems"(2) Some by (cases cur_head) simp
    qed
    from "1.IH"[OF head' refl refl Some "1.prems"(1) this]
    obtain r where "unwrap_tails extendInner ops seen cur = Some (Inr (r, []))"
      by blast
    then show ?thesis using Some by (simp add: head')
  qed
qed

lemma unwrap_list_returns:
  "(\<And>sl recseen. Suc (wrapped_depth_list sl) \<le> n \<Longrightarrow>
       \<exists>r. extendInner sl recseen = Some (Inr (r, []))) \<Longrightarrow>
   wrapped_depth_list l \<le> n \<Longrightarrow> \<exists>r. unwrap_list extendInner ops seen l = Some (Inr (r, []))"
proof (induction l)
  case Nil
  then show ?case by simp
next
  case (Cons cur rest)
  from Cons.prems(2) have d: "wrapped_depth cur \<le> n" "wrapped_depth_list rest \<le> n" by simp_all
  from unwrap_tails_returns[of n extendInner cur ops seen, OF Cons.prems(1) d(1)]
  obtain r where r: "unwrap_tails extendInner ops seen cur = Some (Inr (r, []))" by blast
  from Cons.IH[OF Cons.prems(1) d(2)]
  obtain q where q: "unwrap_list extendInner ops seen rest = Some (Inr (q, []))" by blast
  show ?case by (simp add: r q)
qed

lemma extendSelectorList_empty_returns:
  assumes empty: "\<forall>pHead. ast_get_v ops subset_map pHead = []"
    and removal: "\<forall>l. set (ast_remove_placeholders ops l) \<subseteq> set l"
  shows "wrapped_depth_list pSelectorList < fuel \<Longrightarrow>
         \<exists>r. extendSelectorList fuel ops subset_map pSelectorList isReplace seen =
               Some (Inr ((r, False), []))"
proof (induction fuel arbitrary: pSelectorList isReplace seen)
  case 0
  then show ?case by simp
next
  case (Suc fuel)
  let ?inner = "\<lambda>sl recseen.
                      case extendSelectorList fuel ops subset_map sl False recseen of
                        None \<Rightarrow> None
                      | Some (Inl e) \<Rightarrow> Some (Inl e)
                      | Some (Inr ((ext_sl, inner_extendedSomething), inner_marked)) \<Rightarrow>
                          Some (Inr (ext_sl, inner_marked))"
  have inner: "\<exists>r. ?inner sl recseen = Some (Inr (r, []))"
    if "Suc (wrapped_depth_list sl) \<le> fuel" for sl recseen
  proof -
    from that have "wrapped_depth_list sl < fuel" by simp
    from Suc.IH[OF this, of False recseen] obtain r
      where "extendSelectorList fuel ops subset_map sl False recseen = Some (Inr ((r, False), []))"
      by blast
    then show ?thesis by simp
  qed
  have "wrapped_depth_list (ast_remove_placeholders ops pSelectorList) \<le> wrapped_depth_list pSelectorList"
    using removal by (simp add: wrapped_depth_list_subset)
  then have "wrapped_depth_list (ast_remove_placeholders ops pSelectorList) \<le> fuel"
    using Suc.prems by simp
  from unwrap_list_returns[of fuel ?inner "ast_remove_placeholders ops pSelectorList" ops seen,
      OF inner this]
  obtain r where "unwrap_list ?inner ops seen (ast_remove_placeholders ops pSelectorList) =
      Some (Inr (r, []))"
    by blast
  then show ?case
    by (simp add: extendList_loop_empty[OF empty])
qed

lemma unwrap_simples_cong:
  assumes inner: "\<And>sl. Suc (wrapped_depth_list sl) \<le> n \<Longrightarrow> extendInner sl = extendInner' sl"
  shows "wrapped_depth_simples simples \<le> n \<Longrightarrow>
         unwrap_simples extendInner ops simples = unwrap_simples extendInner' ops simples"
proof (induction simples)
  case Nil
  then show ?case by simp
next
  case (Cons hs rest)
  then have rest: "unwrap_simples extendInner ops rest = unwrap_simples extendInner' ops rest"
    by simp
  show ?case
  proof (cases hs)
    case (Wrapped_Selector name sl)
    have "Suc (wrapped_depth_list sl) \<le> n" using Cons.prems Wrapped_Selector by simp
    then have "extendInner sl = extendInner' sl" by (rule inner)
    then show ?thesis using Wrapped_Selector rest
      by (simp split: option.splits sum.splits prod.splits)
  qed (use rest in \<open>simp_all split: option.splits sum.splits prod.splits\<close>)
qed

lemma unwrap_tails_cong:
  "(\<And>sl recseen. Suc (wrapped_depth_list sl) \<le> n \<Longrightarrow> extendInner sl recseen = extendInner' sl recseen) \<Longrightarrow>
   wrapped_depth cur \<le> n \<Longrightarrow>
   unwrap_tails extendInner ops seen cur = unwrap_tails extendInner' ops seen cur"
proof (induction cur rule: wrapped_depth_wrapped_depth_simples_wrapped_depth_list.induct(1)
    [where Q = "\<lambda>simples. True" and R = "\<lambda>sl. True"])
  case (1 c t)
  then show ?case by (cases t) simp_all
next
  case (2 c simples ext opt mb srcs t)
  let ?h = "Compound_Selector simples ext opt mb srcs"
  have "wrapped_depth_simples simples \<le> n" using "2.prems"(2) by simp
  from unwrap_simples_cong[of n "\<lambda>sl. extendInner sl (insert (ast_seen_key ops ?h) seen)"
      "\<lambda>sl. extendInner' sl (insert (ast_seen_key ops ?h) seen)" simples ops, OF _ this] "2.prems"(1)
  have head: "unwrap_simples (\<lambda>sl. extendInner sl (insert (ast_seen_key ops ?h) seen)) ops simples =
              unwrap_simples (\<lambda>sl. extendInner' sl (insert (ast_seen_key ops ?h) seen)) ops simples"
    by blast
  show ?case
  proof (cases t)
    case None
    then show ?thesis by (simp add: head split: option.splits sum.splits prod.splits)
  next
    case (Some cur)
    then have "wrapped_depth cur \<le> n" using "2.prems"(2) by simp
    then have "unwrap_tails extendInner ops seen cur = unwrap_tails extendInner' ops seen cur"
      using "2.IH" Some "2.prems"(1) by blast
    then show ?thesis using Some by (simp add: head split: option.splits sum.splits prod.splits)
  qed
qed simp_all

lemma unwrap_list_cong:
  "(\<And>sl recseen. Suc (wrapped_depth_list sl) \<le> n \<Longrightarrow> extendInner sl recseen = extendInner' sl recseen) \<Longrightarrow>
   wrapped_depth_list l \<le> n \<Longrightarrow>
   unwrap_list extendInner ops seen l = unwrap_list extendInner' ops seen l"
proof (induction l)
  case Nil
  then show ?case by simp
next
  case (Cons cur rest)
  from Cons.prems(2) have d: "wrapped_depth cur \<le> n" "wrapped_depth_list rest \<le> n" by simp_all
  have "unwrap_tails extendInner ops seen cur = unwrap_tails extendInner' ops seen cur"
    using unwrap_tails_cong[of n extendInner extendInner' cur ops seen] Cons.prems(1) d(1) by blast
  moreover have "unwrap_list extendInner ops seen rest = unwrap_list extendInner' ops seen rest"
    using Cons.IH Cons.prems(1) d(2) by blast
  ultimately show ?case by (simp split: option.splits sum.splits prod.splits)
qed

lemma extendSelectorList_empty_fuel:
  assumes empty: "\<forall>pHead. ast_get_v ops subset_map pHead = []"
    and removal: "\<forall>l. set (ast_remove_placeholders ops l) \<subseteq> set l"
  shows "wrapped_depth_list pSelectorList < fuel \<Longrightarrow> wrapped_depth_list pSelectorList < fuel' \<Longrightarrow>
         extendSelectorList fuel ops subset_map pSelectorList isReplace seen =
         extendSelectorList fuel' ops subset_map pSelectorList isReplace' seen"
proof (induction fuel arbitrary: fuel' pSelectorList isReplace isReplace' seen)
  case 0
  then show ?case by simp
next
  case (Suc fuel)
  then obtain k where k: "fuel' = Suc k" by (cases fuel') auto
  let ?inner = "\<lambda>fuel sl recseen.
                      case extendSelectorList fuel ops subset_map sl False recseen of
                        None \<Rightarrow> None
                      | Some (Inl e) \<Rightarrow> Some (Inl e)
                      | Some (Inr ((ext_sl, inner_extendedSomething), inner_marked)) \<Rightarrow>
                          Some (Inr (ext_sl, inner_marked))"
  let ?l = "ast_remove_placeholders ops pSelectorList"
  have le: "wrapped_depth_list ?l \<le> wrapped_depth_list pSelectorList"
    using removal by (simp add: wrapped_depth_list_subset)
  have inner: "?inner fuel sl recseen = ?inner k sl recseen"
    if "Suc (wrapped_depth_list sl) \<le> wrapped_depth_list ?l" for sl recseen
  proof -
    have "wrapped_depth_list sl < fuel" "wrapped_depth_list sl < k"
      using that le Suc.prems k by simp_all
    from Suc.IH[OF this, where isReplace = False and isReplace' = False and seen = recseen]
    show ?thesis by simp
  qed
  have "unwrap_list (?inner fuel) ops seen ?l = unwrap_list (?inner k) ops seen ?l"
    by (rule unwrap_list_cong[of "wrapped_depth_list ?l"]) (use inner in simp_all)
  then show ?case
    by (simp add: k extendList_loop_empty[OF empty] split: option.splits sum.splits prod.splits)
qed

lemma empty_map_list_filter:
  "empty_map_list ops keep seen l = map (empty_map_complex ops keep seen) (filter keep l)"
  by (induction l) simp_all

lemma unwrap_simples_empty_map:
  assumes inner: "\<And>sl. Suc (wrapped_depth_list sl) \<le> n \<Longrightarrow>
                    extendInner sl = Some (Inr (empty_map_list ops keep recseen sl, []))"
  shows "wrapped_depth_simples simples \<le> n \<Longrightarrow>
         unwrap_simples extendInner ops simples = Some (Inr (empty_map_simples ops keep recseen simples, []))"
proof (induction simples)
  case Nil
  then show ?case by simp
next
  case (Cons hs rest)
  then have rest: "unwrap_simples extendInner ops rest =
                   Some (Inr (empty_map_simples ops keep recseen rest, []))"
    by simp
  show ?case
  proof (cases hs)
    case (Wrapped_Selector name sl)
    show ?thesis
    proof (cases "sl = []")
      case True
      then show ?thesis using Wrapped_Selector rest by simp
    next
      case False
      have "Suc (wrapped_depth_list sl) \<le> n" using Cons.prems Wrapped_Selector by simp
      then have "extendInner sl = Some (Inr (empty_map_list ops keep recseen sl, []))" by (rule inner)
      moreover have "unwrap_extended ops name =
          (\<lambda>inner. case ast_first ops inner of
                    None \<Rightarrow> [Wrapped_Selector name []]
                  | Some first_cs \<Rightarrow>
                      if ast_has_wrapped_selector ops first_cs then []
                      else [Wrapped_Selector name [first_cs]])"
        by (rule ext) (simp add: unwrap_extended_def)
      ultimately show ?thesis using Wrapped_Selector rest False by simp
    qed
  qed (use rest in simp_all)
qed

lemma unwrap_tails_empty_map:
  "(\<And>sl recseen. Suc (wrapped_depth_list sl) \<le> n \<Longrightarrow>
       extendInner sl recseen = Some (Inr (empty_map_list ops keep recseen sl, []))) \<Longrightarrow>
   wrapped_depth cur \<le> n \<Longrightarrow>
   unwrap_tails extendInner ops seen cur = Some (Inr (empty_map_complex ops keep seen cur, []))"
proof (induction cur rule: wrapped_depth_wrapped_depth_simples_wrapped_depth_list.induct(1)
    [where Q = "\<lambda>simples. True" and R = "\<lambda>sl. True"])
  case (1 c t)
  then show ?case by (cases t) simp_all
next
  case (2 c simples ext opt mb srcs t)
  let ?h = "Compound_Selector simples ext opt mb srcs"
  have "wrapped_depth_simples simples \<le> n" using "2.prems"(2) by simp
  from unwrap_simples_empty_map[of n "\<lambda>sl. extendInner sl (insert (ast_seen_key ops ?h) seen)"
      ops keep "insert (ast_seen_key ops ?h) seen" simples, OF _ this] "2.prems"(1)
  have head: "unwrap_simples (\<lambda>sl. extendInner sl (insert (ast_seen_key ops ?h) seen)) ops simples =
              Some (Inr (empty_map_simples ops keep (insert (ast_seen_key ops ?h) seen) simples, []))"
    by blast
  show ?case
  proof (cases t)
    case None
    then show ?thesis by (simp add: head new_Compound_Selector_def)
  next
    case (Some cur)
    then have "wrapped_depth cur \<le> n" using "2.prems"(2) by simp
    then have "unwrap_tails extendInner ops seen cur = Some (Inr (empty_map_complex ops keep seen cur, []))"
      using "2.IH" Some "2.prems"(1) by blast
    then show ?thesis using Some by (simp add: head new_Compound_Selector_def)
  qed
qed simp_all

lemma unwrap_list_empty_map:
  "(\<And>sl recseen. Suc (wrapped_depth_list sl) \<le> n \<Longrightarrow>
       extendInner sl recseen = Some (Inr (empty_map_list ops keep recseen sl, []))) \<Longrightarrow>
   wrapped_depth_list l \<le> n \<Longrightarrow>
   unwrap_list extendInner ops seen l = Some (Inr (map (empty_map_complex ops keep seen) l, []))"
proof (induction l)
  case Nil
  then show ?case by simp
next
  case (Cons cur rest)
  from Cons.prems(2) have d: "wrapped_depth cur \<le> n" "wrapped_depth_list rest \<le> n" by simp_all
  have "unwrap_tails extendInner ops seen cur = Some (Inr (empty_map_complex ops keep seen cur, []))"
    using unwrap_tails_empty_map[of n extendInner ops keep cur seen] Cons.prems(1) d(1) by blast
  moreover have "unwrap_list extendInner ops seen rest =
                 Some (Inr (map (empty_map_complex ops keep seen) rest, []))"
    using Cons.IH Cons.prems(1) d(2) by blast
  ultimately show ?case by simp
qed

lemma extendSelectorList_empty_map_list:
  assumes empty: "\<forall>pHead. ast_get_v ops subset_map pHead = []"
    and removal: "\<forall>l. ast_remove_placeholders ops l = filter keep l"
  shows "wrapped_depth_list pSelectorList < fuel \<Longrightarrow>
         extendSelectorList fuel ops subset_map pSelectorList isReplace seen =
           Some (Inr ((empty_map_list ops keep seen pSelectorList, False), []))"
proof (induction fuel arbitrary: pSelectorList isReplace seen)
  case 0
  then show ?case by simp
next
  case (Suc fuel)
  let ?inner = "\<lambda>sl recseen.
                      case extendSelectorList fuel ops subset_map sl False recseen of
                        None \<Rightarrow> None
                      | Some (Inl e) \<Rightarrow> Some (Inl e)
                      | Some (Inr ((ext_sl, inner_extendedSomething), inner_marked)) \<Rightarrow>
                          Some (Inr (ext_sl, inner_marked))"
  have inner: "?inner sl recseen = Some (Inr (empty_map_list ops keep recseen sl, []))"
    if "Suc (wrapped_depth_list sl) \<le> fuel" for sl recseen
  proof -
    from that have "wrapped_depth_list sl < fuel" by simp
    from Suc.IH[OF this, where isReplace = False and seen = recseen] show ?thesis by simp
  qed
  have "wrapped_depth_list (filter keep pSelectorList) \<le> wrapped_depth_list pSelectorList"
    by (simp add: wrapped_depth_list_subset)
  then have "wrapped_depth_list (filter keep pSelectorList) \<le> fuel"
    using Suc.prems by simp
  from unwrap_list_empty_map[of fuel ?inner ops keep "filter keep pSelectorList" seen, OF inner this]
  have "unwrap_list ?inner ops seen (filter keep pSelectorList) =
      Some (Inr (map (empty_map_complex ops keep seen) (filter keep pSelectorList), []))"
    by blast
  then show ?case
    using removal by (simp add: extendList_loop_empty[OF empty] empty_map_list_filter)
qed

text \<open>
  C6 (amended). With an empty subset map \<^verbatim>\<open>complexSelectorHasExtension\<close> is false for
  every complex selector, and the loop of \<^verbatim>\<open>extendSelectorList\<close> passes every selector of
  the list through, with \<open>extendedSomething\<close> false and no extendee marked. If the
  placeholder removal returns only selectors of its argument, the function returns one
  and the same list for every fuel above the nesting depth of the list. If the removal
  keeps the selectors satisfying \<open>keep\<close>, that list is \<open>empty_map_list\<close>: the selectors
  kept, with the heads that are not in \<open>seen\<close> rebuilt and their wrapped lists unwrapped.
  It is the argument itself if the removal leaves the list as it is and all its selectors
  are plain.
\<close>

theorem extendSelectorList_empty_map:
  fixes ops :: "('k, 'sm) selector_ops"
  assumes empty: "\<forall>pHead. ast_get_v ops subset_map pHead = []"
  shows "complexSelectorHasExtension ops subset_map seen pSelector = Inr False \<and>
         extendList_loop extendComplex ops subset_map seen isReplace pSelectorList =
           Some (Inr ((pSelectorList, False), [])) \<and>
         ((\<forall>l. set (ast_remove_placeholders ops l) \<subseteq> set l) \<longrightarrow>
          (\<exists>r. \<forall>fuel>wrapped_depth_list pSelectorList.
             extendSelectorList fuel ops subset_map pSelectorList isReplace seen =
               Some (Inr ((r, False), [])))) \<and>
         ((\<forall>l. ast_remove_placeholders ops l = filter keep l) \<longrightarrow>
          (\<forall>fuel>wrapped_depth_list pSelectorList.
             extendSelectorList fuel ops subset_map pSelectorList isReplace seen =
               Some (Inr ((empty_map_list ops keep seen pSelectorList, False), [])))) \<and>
         (ast_remove_placeholders ops pSelectorList = pSelectorList \<and>
          list_all plain_complex pSelectorList \<longrightarrow>
          (\<forall>fuel>0. extendSelectorList fuel ops subset_map pSelectorList isReplace seen =
             Some (Inr ((pSelectorList, False), []))))"
proof (intro conjI impI)
  show "complexSelectorHasExtension ops subset_map seen pSelector = Inr False"
    by (rule hasExtension_empty(1)[OF empty])
next
  show "extendList_loop extendComplex ops subset_map seen isReplace pSelectorList =
          Some (Inr ((pSelectorList, False), []))"
    by (rule extendList_loop_empty[OF empty])
next
  assume removal: "\<forall>l. set (ast_remove_placeholders ops l) \<subseteq> set l"
  let ?n = "Suc (wrapped_depth_list pSelectorList)"
  from extendSelectorList_empty_returns[OF empty removal, of pSelectorList ?n isReplace seen]
  obtain r where r: "extendSelectorList ?n ops subset_map pSelectorList isReplace seen =
      Some (Inr ((r, False), []))"
    by auto
  have "extendSelectorList fuel ops subset_map pSelectorList isReplace seen =
          Some (Inr ((r, False), []))"
    if "wrapped_depth_list pSelectorList < fuel" for fuel
    using extendSelectorList_empty_fuel[OF empty removal that, of ?n isReplace seen isReplace] r
    by simp
  then show "\<exists>r. \<forall>fuel>wrapped_depth_list pSelectorList.
      extendSelectorList fuel ops subset_map pSelectorList isReplace seen = Some (Inr ((r, False), []))"
    by blast
next
  assume removal: "\<forall>l. ast_remove_placeholders ops l = filter keep l"
  show "\<forall>fuel>wrapped_depth_list pSelectorList.
          extendSelectorList fuel ops subset_map pSelectorList isReplace seen =
            Some (Inr ((empty_map_list ops keep seen pSelectorList, False), []))"
    using extendSelectorList_empty_map_list[OF empty removal] by blast
next
  assume plain: "ast_remove_placeholders ops pSelectorList = pSelectorList \<and>
                 list_all plain_complex pSelectorList"
  show "\<forall>fuel>0. extendSelectorList fuel ops subset_map pSelectorList isReplace seen =
          Some (Inr ((pSelectorList, False), []))"
  proof (intro allI impI)
    fix fuel :: nat
    assume "0 < fuel"
    then obtain k where "fuel = Suc k" by (cases fuel) auto
    then show "extendSelectorList fuel ops subset_map pSelectorList isReplace seen =
          Some (Inr ((pSelectorList, False), []))"
      using extendSelectorList_plain[OF empty conjunct1[OF plain] conjunct2[OF plain]] by simp
  qed
qed

text \<open>
  The list \<^verbatim>\<open>.a, .b\<close> is returned as it is; the list \<^verbatim>\<open>:not(.a, .b), %p\<close>, of depth 1,
  is returned as \<^verbatim>\<open>:not(.a):not(.b)\<close> with the fuel 2 and with the fuel 3.
\<close>

theorem extendSelectorList_empty_map_witness:
  "\<forall>ops :: (simple_selector list, unit) selector_ops.
     complexSelectorHasExtension (empty_map_ops ops) () {} sel_not_a_b = Inr False \<and>
     extendSelectorList 1 (empty_map_ops ops) () [sel_a, sel_b] True {} =
       Some (Inr (([sel_a, sel_b], False), [])) \<and>
     extendSelectorList 2 (empty_map_ops ops) () [sel_not_a_b, sel_placeholder] True {} =
       Some (Inr (([sel_not_a_not_b], False), [])) \<and>
     extendSelectorList 3 (empty_map_ops ops) () [sel_not_a_b, sel_placeholder] True {} =
       Some (Inr (([sel_not_a_not_b], False), []))"
proof (intro allI)
  fix ops :: "(simple_selector list, unit) selector_ops"
  let ?keep = "\<lambda>s. \<not> head_exists is_placeholder s"
  have empty: "\<forall>pHead. ast_get_v (empty_map_ops ops) () pHead = []"
    by (simp add: empty_map_ops_def)
  have removal: "\<forall>l. ast_remove_placeholders (empty_map_ops ops) l = filter ?keep l"
    by (simp add: empty_map_ops_def example_remove_placeholders_def)
  note rule = extendSelectorList_empty_map[OF empty, where seen = "{}" and isReplace = True
      and keep = ?keep]
  have plain: "ast_remove_placeholders (empty_map_ops ops) [sel_a, sel_b] = [sel_a, sel_b] \<and>
               list_all plain_complex [sel_a, sel_b]"
    by (simp add: empty_map_ops_def example_remove_placeholders_def sel_a_def sel_b_def
          class_compound_def plain_compound_def new_Compound_Selector_def)
  have depth: "wrapped_depth_list [sel_not_a_b, sel_placeholder] = 1"
    by (simp add: sel_not_a_b_def sel_placeholder_def sel_a_def sel_b_def class_compound_def
          new_Compound_Selector_def)
  have described: "empty_map_list (empty_map_ops ops) ?keep {} [sel_not_a_b, sel_placeholder] =
      [sel_not_a_not_b]"
    by (simp add: sel_not_a_b_def sel_not_a_not_b_def sel_placeholder_def sel_a_def sel_b_def
          class_compound_def new_Compound_Selector_def empty_map_ops_def)
  have 1: "complexSelectorHasExtension (empty_map_ops ops) () {} sel_not_a_b = Inr False"
    using rule[where pSelector = sel_not_a_b] by blast
  have 2: "extendSelectorList 1 (empty_map_ops ops) () [sel_a, sel_b] True {} =
       Some (Inr (([sel_a, sel_b], False), []))"
  proof -
    have "\<forall>fuel>0. extendSelectorList fuel (empty_map_ops ops) () [sel_a, sel_b] True {} =
            Some (Inr (([sel_a, sel_b], False), []))"
      using rule[where pSelectorList = "[sel_a, sel_b]"] plain by blast
    then show ?thesis using zero_less_one by blast
  qed
  have r: "\<forall>fuel>1. extendSelectorList fuel (empty_map_ops ops) ()
      [sel_not_a_b, sel_placeholder] True {} = Some (Inr (([sel_not_a_not_b], False), []))"
    using rule[where pSelectorList = "[sel_not_a_b, sel_placeholder]"] removal
    unfolding depth described by blast
  have 3: "extendSelectorList 2 (empty_map_ops ops) () [sel_not_a_b, sel_placeholder] True {} =
            Some (Inr (([sel_not_a_not_b], False), [])) \<and>
          extendSelectorList 3 (empty_map_ops ops) () [sel_not_a_b, sel_placeholder] True {} =
            Some (Inr (([sel_not_a_not_b], False), []))"
  proof -
    have "(1::nat) < 2" "(1::nat) < 3" by simp_all
    then show ?thesis using r by blast
  qed
  show "complexSelectorHasExtension (empty_map_ops ops) () {} sel_not_a_b = Inr False \<and>
     extendSelectorList 1 (empty_map_ops ops) () [sel_a, sel_b] True {} =
       Some (Inr (([sel_a, sel_b], False), [])) \<and>
     extendSelectorList 2 (empty_map_ops ops) () [sel_not_a_b, sel_placeholder] True {} =
       Some (Inr (([sel_not_a_not_b], False), [])) \<and>
     extendSelectorList 3 (empty_map_ops ops) () [sel_not_a_b, sel_placeholder] True {} =
       Some (Inr (([sel_not_a_not_b], False), []))"
    using 1 2 3 by blast
qed

text \<open>
  With the empty map the list is not always returned unchanged: \<^verbatim>\<open>:not(.a, .b)\<close> comes
  back as \<^verbatim>\<open>:not(.a):not(.b)\<close>, and of \<^verbatim>\<open>%p, .a\<close> only \<^verbatim>\<open>.a\<close> is left.
\<close>

theorem extendSelectorList_empty_map_counterexample:
  "\<forall>ops :: (simple_selector list, unit) selector_ops.
     extendSelectorList 2 (empty_map_ops ops) () [sel_not_a_b] False {} =
       Some (Inr (([sel_not_a_not_b], False), [])) \<and>
     [sel_not_a_not_b] \<noteq> [sel_not_a_b] \<and>
     extendSelectorList 1 (empty_map_ops ops) () [sel_placeholder, sel_a] False {} =
       Some (Inr (([sel_a], False), [])) \<and>
     [sel_a] \<noteq> [sel_placeholder, sel_a]"
proof (intro allI conjI)
  fix ops :: "(simple_selector list, unit) selector_ops"
  have inner: "extendSelectorList (Suc 0) (empty_map_ops ops) () [sel_a, sel_b] False recseen =
      Some (Inr (([sel_a, sel_b], False), []))" for recseen
    by (simp add: empty_map_ops_def example_remove_placeholders_def sel_a_def sel_b_def
          class_compound_def new_Compound_Selector_def Let_def)
  have two: "(2::nat) = Suc (Suc 0)" by simp
  show "extendSelectorList 2 (empty_map_ops ops) () [sel_not_a_b] False {} =
       Some (Inr (([sel_not_a_not_b], False), []))"
    unfolding two
    by (simp add: inner sel_not_a_b_def sel_not_a_not_b_def new_Compound_Selector_def Let_def)
       (simp add: empty_map_ops_def example_remove_placeholders_def unwrap_extended_def
          sel_a_def sel_b_def class_compound_def new_Compound_Selector_def)
  show "[sel_not_a_not_b] \<noteq> [sel_not_a_b]"
    by (simp add: sel_not_a_b_def sel_not_a_not_b_def new_Compound_Selector_def)
  show "extendSelectorList 1 (empty_map_ops ops) () [sel_placeholder, sel_a] False {} =
       Some (Inr (([sel_a], False), []))"
    by (simp add: empty_map_ops_def example_remove_placeholders_def sel_a_def sel_placeholder_def
          class_compound_def new_Compound_Selector_def Let_def)
  show "[sel_a] \<noteq> [sel_placeholder, sel_a]" by simp
qed

end
